theory Spec2Isabelle
  imports Complex_Main "HOL-Library.Sublist" "HOL-Library.Log_Nat"
begin

section \<open>Rate limiter (video-info route and download route)\<close>

text \<open>
  Both routes keep a process-wide \<open>Map<string, {count, resetTime}>\<close>. The map is
  modelled as a partial function from client keys to entries; \<open>Date.now()\<close> is an
  argument of the check, and the mutated map is returned next to the boolean result.
  Times are integers (milliseconds), counts are natural numbers.
\<close>

record rl_entry =
  count :: nat
  resetTime :: int

type_synonym rl_map = "string \<rightharpoonup> rl_entry"

definition RATE_LIMIT_WINDOW :: int where
  "RATE_LIMIT_WINDOW = 60 * 1000"

definition RATE_LIMIT_MAX_REQUESTS :: nat where
  "RATE_LIMIT_MAX_REQUESTS = 30"

definition DOWNLOAD_RATE_LIMIT_WINDOW :: int where
  "DOWNLOAD_RATE_LIMIT_WINDOW = 60 * 1000"

definition DOWNLOAD_RATE_LIMIT_MAX_REQUESTS :: nat where
  "DOWNLOAD_RATE_LIMIT_MAX_REQUESTS = 10"

text \<open>
  The clean-up loop \<open>for (const [key, value] of map.entries()) if (now > value.resetTime)
  map.delete(key)\<close> visits every entry once and deletes the expired ones; on the map
  as a function this is a pointwise filter.
\<close>

definition sweep :: "int \<Rightarrow> rl_map \<Rightarrow> rl_map" where
  "sweep now m =
     (\<lambda>key. case m key of
              None \<Rightarrow> None
            | Some v \<Rightarrow> if now > resetTime v then None else Some v)"

definition checkRateLimit :: "int \<Rightarrow> rl_map \<Rightarrow> string \<Rightarrow> bool \<times> rl_map" where
  "checkRateLimit now rateLimitMap ip =
     (let m = sweep now rateLimitMap in
      case m ip of
        None \<Rightarrow> (True, m(ip \<mapsto> \<lparr>count = 1, resetTime = now + RATE_LIMIT_WINDOW\<rparr>))
      | Some userLimit \<Rightarrow>
          if now > resetTime userLimit
          then (True, m(ip \<mapsto> \<lparr>count = 1, resetTime = now + RATE_LIMIT_WINDOW\<rparr>))
          else if count userLimit \<ge> RATE_LIMIT_MAX_REQUESTS then (False, m)
          else (True, m(ip \<mapsto> userLimit\<lparr>count := count userLimit + 1\<rparr>)))"

definition checkDownloadRateLimit :: "int \<Rightarrow> rl_map \<Rightarrow> string \<Rightarrow> bool \<times> rl_map" where
  "checkDownloadRateLimit now downloadRateLimitMap ip =
     (let m = sweep now downloadRateLimitMap in
      case m ip of
        None \<Rightarrow> (True, m(ip \<mapsto> \<lparr>count = 1, resetTime = now + DOWNLOAD_RATE_LIMIT_WINDOW\<rparr>))
      | Some userLimit \<Rightarrow>
          if now > resetTime userLimit
          then (True, m(ip \<mapsto> \<lparr>count = 1, resetTime = now + DOWNLOAD_RATE_LIMIT_WINDOW\<rparr>))
          else if count userLimit \<ge> DOWNLOAD_RATE_LIMIT_MAX_REQUESTS then (False, m)
          else (True, m(ip \<mapsto> userLimit\<lparr>count := count userLimit + 1\<rparr>)))"

text \<open>
  A sequence of calls, each with its own clock reading and client key, threads the map
  through \<open>check\<close> and collects the answers in call order. \<open>check\<close> is one of the two
  functions above.
\<close>

fun calls :: "(int \<Rightarrow> rl_map \<Rightarrow> string \<Rightarrow> bool \<times> rl_map) \<Rightarrow> rl_map \<Rightarrow> (int \<times> string) list
              \<Rightarrow> bool list \<times> rl_map" where
  "calls check m [] = ([], m)"
| "calls check m ((now, ip) # rest) =
     (let (ok, m') = check now m ip;
          (oks, m'') = calls check m' rest
      in (ok # oks, m''))"

text \<open>The answers given to one client key, in call order.\<close>

fun answers_for :: "string \<Rightarrow> (int \<times> string) list \<Rightarrow> bool list \<Rightarrow> bool list" where
  "answers_for ip ((now, k) # evs) (ok # oks) =
     (if k = ip then ok # answers_for ip evs oks else answers_for ip evs oks)"
| "answers_for ip _ _ = []"

text \<open>
  Both checks are the same procedure up to their two constants. \<open>limiter W N\<close> is that
  procedure with the window and the maximum as arguments; the branch on an expired entry of
  the key is gone because the sweep has already removed such an entry. It is shown equal to
  each check below and carries the inductive proofs.
\<close>

definition limiter :: "int \<Rightarrow> nat \<Rightarrow> int \<Rightarrow> rl_map \<Rightarrow> string \<Rightarrow> bool \<times> rl_map" where
  "limiter W N now m ip =
     (case sweep now m ip of
        None \<Rightarrow> (True, (sweep now m)(ip \<mapsto> \<lparr>count = 1, resetTime = now + W\<rparr>))
      | Some e \<Rightarrow>
          if count e \<ge> N then (False, sweep now m)
          else (True, (sweep now m)(ip \<mapsto> e\<lparr>count := count e + 1\<rparr>)))"

text \<open>How many calls in a sequence come from one key.\<close>

definition count_calls :: "string \<Rightarrow> (int \<times> string) list \<Rightarrow> nat" where
  "count_calls ip evs = length (filter (\<lambda>ev. snd ev = ip) evs)"

section \<open>JavaScript values and strings\<close>

text \<open>
  A JavaScript string is a sequence of UTF-16 code units. It is modelled as a HOL
  \<open>string\<close>, one \<open>char\<close> per code unit, which covers the code units U+0000 to U+00FF.
  Every test the modelled code makes on a character (printable ASCII, letter, digit,
  white space, one of a few punctuation marks) treats the code units above U+00FF as it
  treats U+0080 to U+009F, so nothing the claims depend on is lost.

  A value of type \<open>any\<close> that reaches the code from parsed JSON is a \<open>jsval\<close>. \<open>Num n\<close>
  is a number that is an integer; the model is meant for magnitudes below \<open>2^53\<close>, which
  \<open>JSON.parse\<close> yields exactly and which are printed in plain decimal digits. \<open>Fraction s\<close> is
  a finite number that is not an integer, \<open>s\<close> being the decimal string JavaScript
  prints for it (\<open>129.478\<close>); it is not zero, so it is truthy. Non-finite numbers are
  outside the model. \<open>Other s\<close> stands for an array or an object whose conversion to a
  string yields \<open>s\<close>; such a value is truthy, is not of type string and has none of the
  string methods.
\<close>

datatype jsval =
  Undefined | Null | Bool bool | Num int | Fraction string | Str string | Other string

text \<open>\<open>ToBoolean\<close>, as used by \<open>!x\<close>, \<open>x || y\<close> and \<open>x && y\<close>.\<close>

fun truthy :: "jsval \<Rightarrow> bool" where
  "truthy Undefined = False"
| "truthy Null = False"
| "truthy (Bool b) = b"
| "truthy (Num n) = (n \<noteq> 0)"
| "truthy (Fraction s) = True"
| "truthy (Str s) = (s \<noteq> [])"
| "truthy (Other s) = True"

text \<open>\<open>a || b\<close> on values.\<close>

definition js_or :: "jsval \<Rightarrow> jsval \<Rightarrow> jsval" where
  "js_or a b = (if truthy a then a else b)"

text \<open>\<open>s.includes(sub)\<close>: \<open>sub\<close> occurs in \<open>s\<close> as a contiguous block.\<close>

fun js_includes :: "string \<Rightarrow> string \<Rightarrow> bool" where
  "js_includes [] sub = (sub = [])"
| "js_includes (c # cs) sub = (prefix sub (c # cs) \<or> js_includes cs sub)"

text \<open>
  The character class \<open>\s\<close> of a regular expression, and the characters \<open>trim()\<close>
  strips: tab, line feed, vertical tab, form feed, carriage return, space and
  no-break space (the members of the class below U+0100).
\<close>

definition is_js_space :: "char \<Rightarrow> bool" where
  "is_js_space c = ((of_char c :: nat) \<in> {9, 10, 11, 12, 13, 32, 160})"

definition trim :: "string \<Rightarrow> string" where
  "trim s = rev (dropWhile is_js_space (rev (dropWhile is_js_space s)))"

text \<open>\<open>s.substring(0, n)\<close>.\<close>

definition substring0 :: "nat \<Rightarrow> string \<Rightarrow> string" where
  "substring0 n s = take n s"

text \<open>
  \<open>s.replace(/\s+/g, " ")\<close>: every maximal run of white space becomes one space.
\<close>

function replace_space_runs :: "string \<Rightarrow> string" where
  "replace_space_runs [] = []"
| "replace_space_runs (c # cs) =
     (if is_js_space c then CHR '' '' # replace_space_runs (dropWhile is_js_space cs)
      else c # replace_space_runs cs)"
  by pat_completeness auto
termination
  by (relation "measure length") (auto simp: length_dropWhile_le less_Suc_eq_le)

text \<open>\<open>s.toLowerCase()\<close> on the code units below U+0100.\<close>

definition lower_char :: "char \<Rightarrow> char" where
  "lower_char c =
     (let n = (of_char c :: nat) in
      if (65 \<le> n \<and> n \<le> 90) \<or> (192 \<le> n \<and> n \<le> 222 \<and> n \<noteq> 215)
      then char_of (n + 32) else c)"

definition toLowerCase :: "string \<Rightarrow> string" where
  "toLowerCase s = map lower_char s"

section \<open>Download route: validation and file names\<close>

text \<open>The class \<open>[a-zA-Z0-9_-]\<close>.\<close>

definition format_id_char :: "char \<Rightarrow> bool" where
  "format_id_char c =
     (let n = (of_char c :: nat) in
      (97 \<le> n \<and> n \<le> 122) \<or> (65 \<le> n \<and> n \<le> 90) \<or> (48 \<le> n \<and> n \<le> 57)
      \<or> c = CHR ''_'' \<or> c = CHR ''-'')"

text \<open>
  \<open>/^[a-zA-Z0-9_-]+$/.test(formatId) && formatId.length <= 20\<close>. Without the \<open>m\<close> flag
  \<open>^\<close> and \<open>$\<close> match only at the two ends of the input, so the test holds when the
  whole string is a non-empty run of the class.
\<close>

definition validateFormatId :: "string \<Rightarrow> bool" where
  "validateFormatId formatId =
     ((formatId \<noteq> [] \<and> list_all format_id_char formatId) \<and> length formatId \<le> 20)"

text \<open>The class \<open>[<>:"/\\|?*]\<close>.\<close>

definition invalid_filename_char :: "char \<Rightarrow> bool" where
  "invalid_filename_char c =
     (c \<in> {CHR ''<'', CHR ''>'', CHR '':'', CHR 0x22, CHR ''/'', CHR 0x5C, CHR ''|'',
            CHR ''?'', CHR ''*''})"

text \<open>The class \<open>[\x20-\x7E]\<close>; the code removes its complement.\<close>

definition printable_ascii :: "char \<Rightarrow> bool" where
  "printable_ascii c = (32 \<le> (of_char c :: nat) \<and> (of_char c :: nat) \<le> 126)"

text \<open>\<open>sanitizeFilename\<close> of the download route (server side).\<close>

definition sanitizeFilename_server :: "string \<Rightarrow> string" where
  "sanitizeFilename_server filename =
     substring0 200
       (trim
         (replace_space_runs
           (filter printable_ascii
             (filter (\<lambda>c. \<not> invalid_filename_char c) filename))))"

text \<open>\<open>sanitizeFilename\<close> of the browser's API module (client side).\<close>

definition sanitizeFilename_client :: "string \<Rightarrow> string" where
  "sanitizeFilename_client filename =
     substring0 200
       (trim
         (filter printable_ascii
           (filter (\<lambda>c. \<not> invalid_filename_char c) filename)))"

text \<open>
  \<open>getContentType\<close>. The table is an object literal, and \<open>contentTypes[key]\<close> also finds
  the properties every object inherits. Of those only \<open>constructor\<close> and \<open>__proto__\<close>
  are spelled in lower case, so they are the only inherited ones a lower-cased key can
  hit; both are truthy objects, and the header value built from them is their string
  form.
\<close>

definition contentTypes :: "(string \<times> string) list" where
  "contentTypes =
     [(''mp4'', ''video/mp4''),
      (''webm'', ''video/webm''),
      (''mkv'', ''video/x-matroska''),
      (''avi'', ''video/x-msvideo''),
      (''mov'', ''video/quicktime''),
      (''mp3'', ''audio/mpeg''),
      (''m4a'', ''audio/mp4''),
      (''aac'', ''audio/aac''),
      (''ogg'', ''audio/ogg''),
      (''wav'', ''audio/wav'')]"

definition inherited_properties :: "(string \<times> string) list" where
  "inherited_properties =
     [(''constructor'', ''function Object() { [native code] }''),
      (''__proto__'', ''[object Object]'')]"

definition getContentType :: "string \<Rightarrow> string" where
  "getContentType fileExtension =
     (case map_of (contentTypes @ inherited_properties) (toLowerCase fileExtension) of
        Some t \<Rightarrow> t
      | None \<Rightarrow> ''application/octet-stream'')"

section \<open>JavaScript numbers\<close>

text \<open>
  A Number is an IEEE 754 double: a finite value, an infinity or \<open>NaN\<close>. A finite
  value is held as the rational number it stands for. The sign of zero is not
  modelled: every zero is \<open>+0\<close> (the program never divides by a computed zero).
\<close>

datatype js_number = Finite rat | Infinity | NegInfinity | NaN

text \<open>For \<open>x > 0\<close>, the integer \<open>e\<close> with \<open>2^e \<le> x < 2^(e+1)\<close>.\<close>

definition floor_log2 :: "rat \<Rightarrow> int" where
  "floor_log2 x = (let (a, b) = quotient_of x; d = bitlen a - bitlen b
                   in if 2 powi d \<le> x then d else d - 1)"

text \<open>The nearest integer; of two equally near integers the even one.\<close>

definition round_ties_even :: "rat \<Rightarrow> int" where
  "round_ties_even x = (let n = \<lfloor>x\<rfloor>; r = x - of_int n
                        in if r < 1/2 then n else if 1/2 < r then n + 1
                           else if even n then n else n + 1)"

text \<open>
  The double nearest to a rational number, ties to the even significand: the result
  of every arithmetic operation and of every conversion to a Number. The significand
  has 53 bits; below \<open>2^(-1022)\<close> the spacing stays \<open>2^(-1074)\<close> (subnormal numbers); a
  result that rounds to \<open>2^1024\<close> or beyond is an infinity.
\<close>

definition to_double :: "rat \<Rightarrow> js_number" where
  "to_double x =
     (if x = 0 then Finite 0
      else let e = max (floor_log2 \<bar>x\<bar> - 52) (- 1074);
               y = of_int (round_ties_even (x / 2 powi e)) * 2 powi e
           in if 2 ^ 1024 \<le> y then Infinity
              else if y \<le> - (2 ^ 1024) then NegInfinity
              else Finite y)"



fun js_add :: "js_number \<Rightarrow> js_number \<Rightarrow> js_number" where
  "js_add (Finite a) (Finite b) = to_double (a + b)"
| "js_add (Finite a) Infinity = Infinity"
| "js_add (Finite a) NegInfinity = NegInfinity"
| "js_add Infinity (Finite b) = Infinity"
| "js_add NegInfinity (Finite b) = NegInfinity"
| "js_add Infinity Infinity = Infinity"
| "js_add NegInfinity NegInfinity = NegInfinity"
| "js_add _ _ = NaN"

fun js_neg :: "js_number \<Rightarrow> js_number" where
  "js_neg (Finite a) = Finite (- a)"
| "js_neg Infinity = NegInfinity"
| "js_neg NegInfinity = Infinity"
| "js_neg NaN = NaN"

definition js_sub :: "js_number \<Rightarrow> js_number \<Rightarrow> js_number" where
  "js_sub a b = js_add a (js_neg b)"


text \<open>The test \<open>v > 0\<close> on a Number.\<close>

fun js_positive :: "js_number \<Rightarrow> bool" where
  "js_positive (Finite x) = (0 < x)"
| "js_positive Infinity = True"
| "js_positive v = False"


text \<open>No two adjacent spaces: the inputs on which collapsing runs of spaces changes nothing.\<close>

fun no_double_space :: "string \<Rightarrow> bool" where
  "no_double_space (a # b # cs) =
     (\<not> (a = CHR '' '' \<and> b = CHR '' '') \<and> no_double_space (b # cs))"
| "no_double_space _ = True"

section \<open>Download route: the request handler\<close>

text \<open>
  The handler's surroundings are explicit arguments and results:
  \<^item> the temporary directory is a list of entries (name, size in bytes) in the order
    \<open>readdirSync\<close> lists them; \<open>existsSync\<close>, \<open>statSync\<close> and \<open>unlinkSync\<close> look an
    entry up by name, and an existing entry can always be read and deleted;
  \<^item> the external tool is a function from the command line and the directory to the
    outcome of \<open>execAsync\<close> (the two output streams, or the \<open>code\<close> of the error it
    throws) and the directory it leaves behind;
  \<^item> the handler returns the response, the updated rate-limit map, the directory, and
    the command lines it has run, in order.
  The clean-up callbacks registered on the stream and the timer run after the response
  is returned and are not part of the handler's result.
\<close>

type_synonym dir = "(string \<times> nat) list"

datatype exec_outcome = ExecOk string string | ExecThrow string

type_synonym tool = "string \<Rightarrow> dir \<Rightarrow> exec_outcome \<times> dir"

text \<open>
  A response is either \<open>NextResponse.json({error}, {status})\<close> or the file stream with
  its \<open>Content-Type\<close>, \<open>Content-Disposition\<close> and \<open>Content-Length\<close> headers.
\<close>

datatype response =
    Json nat string
  | FileStream string string string nat

text \<open>
  The parsed request body: \<open>request.json()\<close> throws, yields \<open>null\<close>, or yields a value
  whose properties \<open>url\<close>, \<open>formatId\<close>, \<open>title\<close> and \<open>channel\<close> the handler reads
  (each \<open>Undefined\<close> when absent).
\<close>

datatype request_body = InvalidJson | JsonNull | Body jsval jsval jsval jsval

record handled =
  response :: response
  rateLimitMap' :: rl_map
  files' :: dir
  commands :: "string list"

definition maxFileSize :: nat where
  "maxFileSize = 2000 * 1024 * 1024"

definition getYtDlpCommand :: string where
  "getYtDlpCommand = ''yt-dlp''"

text \<open>
  \<open>path.join(tempDir, name)\<close> for a normalised \<open>tempDir\<close> and a \<open>name\<close> that is a single
  path segment (sanitised names and directory entries hold no separator).
\<close>

definition join :: "string \<Rightarrow> string \<Rightarrow> string" where
  "join d name = d @ ''/'' @ name"

definition unlinkSync :: "string \<Rightarrow> dir \<Rightarrow> dir" where
  "unlinkSync name files = filter (\<lambda>entry. fst entry \<noteq> name) files"

text \<open>\<open>name.split(".").pop() || "mp4"\<close>.\<close>

definition fileExtension_of :: "string \<Rightarrow> string" where
  "fileExtension_of name =
     (let ext = rev (takeWhile (\<lambda>c. c \<noteq> CHR ''.'') (rev name))
      in if ext = [] then ''mp4'' else ext)"

text \<open>
  The command line: \<open>`${ytDlpCmd} -f ${formatId} -o "${outputPath}" --no-warnings "${url}"`\<close>
  with \<open>outputPath = join(tempDir, `${filename}.%(ext)s`)\<close>.
\<close>

definition download_command :: "string \<Rightarrow> string \<Rightarrow> string \<Rightarrow> string \<Rightarrow> string" where
  "download_command tempDir url formatId filename =
     (let outputPath = join tempDir (filename @ ''.%(ext)s'')
      in getYtDlpCommand @ '' -f '' @ formatId @ '' -o '' @ [CHR 0x22] @ outputPath
         @ [CHR 0x22] @ '' --no-warnings '' @ [CHR 0x22] @ url @ [CHR 0x22])"

text \<open>
  The part of the handler inside the inner \<open>try\<close>, from the subprocess call on.
  \<open>reply\<close> completes a response to the handler's result.
\<close>

definition run_download ::
  "tool \<Rightarrow> string \<Rightarrow> rl_map \<Rightarrow> dir \<Rightarrow> string \<Rightarrow> string \<Rightarrow> string \<Rightarrow> handled" where
  "run_download exec tempDir rl files url formatId filename =
     (let command = download_command tempDir url formatId filename;
          (outcome, files1) = exec command files;
          reply = (\<lambda>r fs. \<lparr>response = r, rateLimitMap' = rl, files' = fs, commands = [command]\<rparr>)
      in case outcome of
           ExecThrow code \<Rightarrow>
             if code = ''TIMEOUT''
             then reply (Json 408 ''Download timeout. Video might be too large or unavailable.'') files1
             else reply (Json 500
               ''Download failed. The video might be unavailable or the format might not be supported.'')
               files1
         | ExecOk stdout stderr \<Rightarrow>
             if stderr \<noteq> [] \<and> js_includes stderr ''ERROR''
             then reply (Json 404
               ''Download failed. Video might be unavailable or format not supported.'') files1
             else
               (case filter (\<lambda>f. js_includes f filename) (map fst files1) of
                  [] \<Rightarrow> reply (Json 500 ''Download completed but file not found'') files1
                | downloadedFile # _ \<Rightarrow>
                    (case map_of files1 downloadedFile of
                       None \<Rightarrow> reply (Json 500 ''Downloaded file not found'') files1
                     | Some sz \<Rightarrow>
                         if sz > maxFileSize
                         then reply (Json 413 ''File too large. Maximum size is 2GB.'')
                                (unlinkSync downloadedFile files1)
                         else reply
                           (FileStream (join tempDir downloadedFile)
                              (getContentType (fileExtension_of downloadedFile))
                              (''attachment; filename='' @ [CHR 0x22] @ downloadedFile @ [CHR 0x22])
                              sz)
                           files1)))"

text \<open>
  The local \<open>filename\<close>: \<open>sanitizeFilename\<close> is applied to \<open>title || "video"\<close> and
  \<open>channel || "unknown"\<close>. On a truthy value that is not a string the call of
  \<open>replace\<close> throws (\<open>None\<close>).
\<close>

definition filename_of :: "jsval \<Rightarrow> jsval \<Rightarrow> string option" where
  "filename_of title channel =
     (case (js_or title (Str ''video''), js_or channel (Str ''unknown'')) of
        (Str t, Str c) \<Rightarrow> Some (sanitizeFilename_server t @ '' - '' @ sanitizeFilename_server c)
      | _ \<Rightarrow> None)"

text \<open>
  The handler of the download route. The outer \<open>catch\<close> answers a throwing
  \<open>sanitizeFilename\<close> with status 500, as it does the destructuring of a \<open>null\<close> body.
\<close>

definition POST_download ::
  "tool \<Rightarrow> string \<Rightarrow> int \<Rightarrow> rl_map \<Rightarrow> dir \<Rightarrow> string \<Rightarrow> request_body \<Rightarrow> handled" where
  "POST_download exec tempDir now rl files clientIP body =
     (let (allowed, rl1) = checkDownloadRateLimit now rl clientIP;
          reply = (\<lambda>r. \<lparr>response = r, rateLimitMap' = rl1, files' = files, commands = []\<rparr>)
      in if \<not> allowed
         then reply (Json 429 ''Download rate limit exceeded. Please try again later.'')
         else case body of
           InvalidJson \<Rightarrow> reply (Json 400 ''Invalid JSON in request body'')
         | JsonNull \<Rightarrow> reply (Json 500 ''Internal server error'')
         | Body url formatId title channel \<Rightarrow>
             (case url of
                Str u \<Rightarrow>
                  if u = [] then reply (Json 400 ''URL is required and must be a string'')
                  else
                    (case formatId of
                       Str f \<Rightarrow>
                         if f = []
                         then reply (Json 400 ''Format ID is required and must be a string'')
                         else if \<not> validateFormatId f
                         then reply (Json 400 ''Invalid format ID'')
                         else
                           (case filename_of title channel of
                              Some filename \<Rightarrow> run_download exec tempDir rl1 files u f filename
                            | None \<Rightarrow> reply (Json 500 ''Internal server error''))
                     | _ \<Rightarrow> reply (Json 400 ''Format ID is required and must be a string''))
              | _ \<Rightarrow> reply (Json 400 ''URL is required and must be a string'')))"

section \<open>Browser API module: downloadVideo\<close>




text \<open>
  What the \<open>load\<close> listener sees of the response: the status, the \<open>content-type\<close> and
  \<open>Content-Disposition\<close> headers (\<open>None\<close> for \<open>null\<close>) and the size of the received blob
  (\<open>None\<close> when \<open>xhr.response\<close> is \<open>null\<close>).
\<close>

record xhr_response =
  xhr_status :: int
  content_type :: "string option"
  content_disposition :: "string option"
  blob_size :: "nat option"

text \<open>
  What the listener does: it triggers the browser's save under a file name (\<open>None\<close> for
  \<open>undefined\<close>) and resolves the promise, or it rejects the promise with an
  \<open>APIError(message, status)\<close> and saves nothing.
\<close>

datatype load_outcome = Saved "string option" | Rejected string int

text \<open>\<open>s.split(sep)[1]\<close> for a non-empty separator: the text between the first and the
  second occurrence of \<open>sep\<close>, or \<open>undefined\<close> when \<open>sep\<close> does not occur.\<close>

fun up_to :: "string \<Rightarrow> string \<Rightarrow> string" where
  "up_to sep [] = []"
| "up_to sep (c # cs) = (if prefix sep (c # cs) then [] else c # up_to sep cs)"

fun split_second :: "string \<Rightarrow> string \<Rightarrow> string option" where
  "split_second sep [] = None"
| "split_second sep (c # cs) =
     (if prefix sep (c # cs) then Some (up_to sep (drop (length sep) (c # cs)))
      else split_second sep cs)"

text \<open>
  The \<open>load\<close> listener. With \<open>responseType = "blob"\<close> reading \<open>xhr.responseText\<close> throws,
  so on a status outside 200 to 299 the message stays at its default.
\<close>

definition load_listener :: "string \<Rightarrow> string \<Rightarrow> xhr_response \<Rightarrow> load_outcome" where
  "load_listener title channel xhr =
     (if xhr_status xhr \<ge> 200 \<and> xhr_status xhr < 300 then
        (case content_type xhr of
           None \<Rightarrow> Rejected ''Invalid file type received'' 500
         | Some contentType \<Rightarrow>
             if contentType = [] \<or>
                (\<not> js_includes contentType ''video'' \<and> \<not> js_includes contentType ''audio'')
             then Rejected ''Invalid file type received'' 500
             else
               (case blob_size xhr of
                  None \<Rightarrow> Rejected ''Downloaded file is empty'' 500
                | Some n \<Rightarrow>
                    if n = 0 then Rejected ''Downloaded file is empty'' 500
                    else Saved
                      (case content_disposition xhr of
                         Some contentDisposition \<Rightarrow>
                           if contentDisposition = []
                           then Some (sanitizeFilename_client title @ '' - ''
                                      @ sanitizeFilename_client channel @ ''.mp4'')
                           else map_option (filter (\<lambda>c. c \<noteq> CHR 0x22))
                                  (split_second ''filename='' contentDisposition)
                       | None \<Rightarrow> Some (sanitizeFilename_client title @ '' - ''
                                      @ sanitizeFilename_client channel @ ''.mp4''))))
      else Rejected ''Download failed'' (xhr_status xhr))"

section \<open>Video-info route: URL validation\<close>

text \<open>
  \<open>new URL(url)\<close> is the platform's parser and not code of the repository. It is an
  argument of the model: \<open>None\<close> when the constructor throws, otherwise the two
  properties the code reads.
\<close>

record url_object =
  hostname :: string
  pathname :: string

definition validHosts :: "string list" where
  "validHosts = [''www.youtube.com'', ''youtube.com'', ''youtu.be'', ''m.youtube.com'']"

definition validateYouTubeUrl :: "(string \<Rightarrow> url_object option) \<Rightarrow> string \<Rightarrow> bool" where
  "validateYouTubeUrl new_URL url =
     (case new_URL url of
        None \<Rightarrow> False
      | Some urlObj \<Rightarrow>
          if hostname urlObj \<notin> set validHosts then False
          else if hostname urlObj = ''youtu.be'' then length (pathname urlObj) > 1
          else js_includes (pathname urlObj) ''/watch'' \<or> js_includes (pathname urlObj) ''/shorts/'')"

text \<open>
  A parser to put in the place of \<open>new URL\<close> at concrete inputs. It reads plain URLs of
  the form \<open>scheme://host/path?query#fragment\<close> (no user information, port or escapes):
  the host in lower case, and the path up to the query or fragment, \<open>/\<close> when there is
  none. The statements below that mention a parser hold for every parser.
\<close>

definition is_ascii_letter :: "char \<Rightarrow> bool" where
  "is_ascii_letter c =
     (let n = (of_char c :: nat) in (97 \<le> n \<and> n \<le> 122) \<or> (65 \<le> n \<and> n \<le> 90))"

definition parse_plain_url :: "string \<Rightarrow> url_object option" where
  "parse_plain_url s =
     (let scheme = takeWhile (\<lambda>c. c \<noteq> CHR '':'') s;
          rest = dropWhile (\<lambda>c. c \<noteq> CHR '':'') s
      in if scheme = [] \<or> \<not> list_all is_ascii_letter scheme \<or> \<not> prefix ''://'' rest then None
         else
           (let after = drop 3 rest;
                host = takeWhile (\<lambda>c. c \<notin> {CHR ''/'', CHR ''?'', CHR ''#''}) after;
                tail = dropWhile (\<lambda>c. c \<notin> {CHR ''/'', CHR ''?'', CHR ''#''}) after;
                path = takeWhile (\<lambda>c. c \<notin> {CHR ''?'', CHR ''#''}) tail
            in if host = [] then None
               else Some \<lparr>hostname = toLowerCase host,
                          pathname = (if path = [] then ''/'' else path)\<rparr>))"

section \<open>Video-info route: format list\<close>

text \<open>
  A format record of the external tool, and a descriptor built from it, is an object
  with properties of type \<open>any\<close>: a list of property names and values. Reading a
  property that is absent yields \<open>undefined\<close>.
\<close>

type_synonym js_object = "(string \<times> jsval) list"

definition js_get :: "js_object \<Rightarrow> string \<Rightarrow> jsval" where
  "js_get obj name = (case map_of obj name of Some v \<Rightarrow> v | None \<Rightarrow> Undefined)"

text \<open>
  Decimal digits of a natural number, and \<open>Number.parseInt\<close> on a non-empty string of
  decimal digits: the double nearest to the integer that the digits spell.
\<close>

definition digit_char :: "nat \<Rightarrow> char" where
  "digit_char d = char_of (48 + d)"

function digits_of :: "nat \<Rightarrow> string" where
  "digits_of n = (if n < 10 then [digit_char n] else digits_of (n div 10) @ [digit_char (n mod 10)])"
  by pat_completeness auto
termination
  by (relation "measure id") auto

declare digits_of.simps [simp del]

definition is_digit :: "char \<Rightarrow> bool" where
  "is_digit c = (48 \<le> (of_char c :: nat) \<and> (of_char c :: nat) \<le> 57)"

definition parseInt :: "string \<Rightarrow> js_number" where
  "parseInt ds = to_double (of_nat (foldl (\<lambda>acc c. 10 * acc + ((of_char c :: nat) - 48)) 0 ds))"

text \<open>
  The string that a template literal \<open>`${v}`\<close> puts in the place of \<open>v\<close>.
\<close>

fun to_string :: "jsval \<Rightarrow> string" where
  "to_string Undefined = ''undefined''"
| "to_string Null = ''null''"
| "to_string (Bool b) = (if b then ''true'' else ''false'')"
| "to_string (Num n) = (if n < 0 then CHR ''-'' # digits_of (nat (- n)) else digits_of (nat n))"
| "to_string (Fraction s) = s"
| "to_string (Str s) = s"
| "to_string (Other s) = s"

text \<open>
  \<open>s.match(/(\d+)SUFFIX/)\<close> for a literal suffix: the captured digits of the leftmost
  match, or \<open>None\<close> for \<open>null\<close>. At a start position the greedy \<open>\d+\<close> takes the whole
  run of digits; giving digits back cannot help, because the suffix starts with a
  letter; so the position matches when the run is followed by the suffix, and otherwise
  the search moves one character on.
\<close>

fun match_digits_then :: "string \<Rightarrow> string \<Rightarrow> string option" where
  "match_digits_then suf [] = None"
| "match_digits_then suf (c # cs) =
     (if is_digit c \<and> prefix suf (dropWhile is_digit cs)
      then Some (c # takeWhile is_digit cs)
      else match_digits_then suf cs)"

datatype error = TypeError

definition getQualityString :: "js_object \<Rightarrow> jsval" where
  "getQualityString format =
     (if truthy (js_get format ''height'') then Str (to_string (js_get format ''height'') @ ''p'')
      else if truthy (js_get format ''abr'') then Str (to_string (js_get format ''abr'') @ ''kbps'')
      else if truthy (js_get format ''quality'') then js_get format ''quality''
      else if truthy (js_get format ''format_note'') then js_get format ''format_note''
      else Str ''Unknown quality'')"

text \<open>
  \<open>getQualityScore(quality, vcodec)\<close>. The parameter \<open>quality\<close> is declared a string but
  receives whatever \<open>getQualityString\<close> returned; on a value that is not a string the
  call of \<open>match\<close> throws a \<open>TypeError\<close>.
\<close>

definition getQualityScore :: "jsval \<Rightarrow> jsval \<Rightarrow> error + js_number" where
  "getQualityScore quality vcodec =
     (case quality of
        Str q \<Rightarrow>
          (case (if truthy vcodec \<and> vcodec \<noteq> Str ''none'' then match_digits_then ''p'' q else None) of
             Some heightMatch \<Rightarrow> Inr (js_add (parseInt heightMatch) (Finite 10000))
           | None \<Rightarrow>
               (case match_digits_then ''kbps'' q of
                  Some bitrateMatch \<Rightarrow> Inr (parseInt bitrateMatch)
                | None \<Rightarrow> Inr (Finite 0)))
      | _ \<Rightarrow> Inl TypeError)"

text \<open>
  \<open>Array.prototype.sort\<close> with a comparator. A result \<open>NaN\<close> of the comparator counts as
  \<open>+0\<close>. The sort is stable; with a comparator that orders consistently the result is
  the stable insertion sort below: \<open>a\<close> stays before \<open>b\<close> unless \<open>cmp a b > 0\<close>.
\<close>

fun insert_by :: "('a \<Rightarrow> 'a \<Rightarrow> js_number) \<Rightarrow> 'a \<Rightarrow> 'a list \<Rightarrow> 'a list" where
  "insert_by cmp x [] = [x]"
| "insert_by cmp x (y # ys) =
     (if js_positive (cmp x y) then y # insert_by cmp x ys else x # y # ys)"

definition sort_by :: "('a \<Rightarrow> 'a \<Rightarrow> js_number) \<Rightarrow> 'a list \<Rightarrow> 'a list" where
  "sort_by cmp xs = foldr (insert_by cmp) xs []"

text \<open>The score the comparator computes for a descriptor.\<close>

definition score_of :: "js_object \<Rightarrow> error + js_number" where
  "score_of d = getQualityScore (js_get d ''quality'') (js_get d ''vcodec'')"

definition descriptor_of :: "js_object \<Rightarrow> js_object" where
  "descriptor_of format =
     [(''format_id'', js_get format ''format_id''),
      (''ext'', js_or (js_get format ''ext'') (Str ''unknown'')),
      (''quality'', getQualityString format),
      (''filesize'', js_get format ''filesize''),
      (''format_note'', js_get format ''format_note''),
      (''vcodec'', js_get format ''vcodec''),
      (''acodec'', js_get format ''acodec''),
      (''fps'', js_get format ''fps''),
      (''tbr'', js_get format ''tbr'')]"

text \<open>
  \<open>processFormats\<close>. The comparator runs only when there are at least two descriptors,
  and then on each of them; a \<open>TypeError\<close> in it leaves \<open>sort\<close> and the function.
\<close>

definition processFormats :: "js_object list \<Rightarrow> error + js_object list" where
  "processFormats formats =
     (let kept = filter (\<lambda>format.
                   truthy (js_get format ''format_id'') \<and>
                   (truthy (js_get format ''height'') \<or> truthy (js_get format ''abr'')
                    \<or> truthy (js_get format ''quality''))) formats;
          mapped = map descriptor_of kept
      in if length mapped < 2 then Inr mapped
         else if \<exists>d \<in> set mapped. isl (score_of d) then Inl TypeError
         else Inr (sort_by (\<lambda>a b. js_sub (projr (score_of b)) (projr (score_of a))) mapped))"

text \<open>
  A descriptor is video-capable when its \<open>vcodec\<close> is present and not \<open>"none"\<close>: the test
  \<open>vcodec && vcodec !== "none"\<close>.
\<close>

definition video_capable :: "js_object \<Rightarrow> bool" where
  "video_capable d = (truthy (js_get d ''vcodec'') \<and> js_get d ''vcodec'' \<noteq> Str ''none'')"

section \<open>Browser component: the download queue\<close>

text \<open>
  The component \<open>VideoUrlForm\<close> holds the list \<open>downloads\<close>, the counter
  \<open>activeDownloads\<close> and the queue of pending identifiers \<open>downloadQueueRef.current\<close>.
  The model adds what the running program holds besides them:
  \<^item> \<open>in_flight\<close>: the identifiers whose call of \<open>startDownload\<close> has issued its request
    and has not yet reached its \<open>finally\<close> block;
  \<^item> \<open>requests\<close>: the identifiers for which \<open>downloadVideo\<close> has been called, in order;
  \<^item> \<open>aborted\<close>: the abort controllers on which \<open>abort()\<close> has been called, and
    \<open>next_controller\<close>, the handle that the next \<open>new AbortController()\<close> gets;
  \<^item> \<open>timers\<close>: the pending calls \<open>setTimeout(() => processQueue(), 0)\<close>, oldest first.
    \<open>processQueue\<close> is a closure of the effect that declares it, and the
    \<open>activeDownloads\<close> it tests is the constant of the render this effect belongs to; a
    timer is held as that value.
  The browser runs one callback at a time. Each callback is an event of the model and
  is applied to the current state as a whole; events can come in any order.
\<close>

datatype status = Queued | Preparing | Downloading | Completed | Error | Cancelled

record DownloadItem =
  item_id :: string
  item_title :: string
  item_channel :: string
  item_format :: string
  status :: status
  progress :: "js_number option"
  error_message :: "string option"
  abortController :: "nat option"
  item_url :: "string option"
  item_formatId :: "string option"

record client_state =
  downloads :: "DownloadItem list"
  activeDownloads :: int
  downloadQueue :: "string list"
  in_flight :: "string list"
  requests :: "string list"
  aborted :: "nat list"
  next_controller :: nat
  timers :: "int list"

definition MAX_CONCURRENT_DOWNLOADS :: int where
  "MAX_CONCURRENT_DOWNLOADS = 1"

definition initial_state :: client_state where
  "initial_state =
     \<lparr>downloads = [], activeDownloads = 0, downloadQueue = [], in_flight = [],
      requests = [], aborted = [], next_controller = 0, timers = []\<rparr>"

text \<open>\<open>prev.map((d) => d.id === downloadId ? f(d) : d)\<close>.\<close>

definition update_item :: "string \<Rightarrow> (DownloadItem \<Rightarrow> DownloadItem) \<Rightarrow> DownloadItem list \<Rightarrow> DownloadItem list" where
  "update_item downloadId f ds = map (\<lambda>d. if item_id d = downloadId then f d else d) ds"

text \<open>An optional string is truthy when it is present and not empty.\<close>

definition present :: "string option \<Rightarrow> bool" where
  "present v = (case v of None \<Rightarrow> False | Some s \<Rightarrow> s \<noteq> [])"

text \<open>
  The synchronous part of \<open>startDownload\<close>, run from inside the updater of
  \<open>processQueue\<close>: the counter goes up and the request is issued; the updater then
  sets the status \<open>preparing\<close>.
\<close>

definition startDownload :: "string \<Rightarrow> client_state \<Rightarrow> client_state" where
  "startDownload downloadId s =
     s\<lparr>activeDownloads := activeDownloads s + 1,
       in_flight := in_flight s @ [downloadId],
       requests := requests s @ [downloadId],
       downloads := update_item downloadId (\<lambda>d. d\<lparr>status := Preparing\<rparr>) (downloads s)\<rparr>"

text \<open>
  One call of \<open>processQueue\<close>; \<open>captured\<close> is the \<open>activeDownloads\<close> of its closure. The
  test \<open>!downloadId\<close> after \<open>shift()\<close> holds for the empty string, and then the function
  returns. A skipped identifier sets a timer that calls the same \<open>processQueue\<close> again.
\<close>

definition processQueue :: "int \<Rightarrow> client_state \<Rightarrow> client_state" where
  "processQueue captured s =
     (if captured \<ge> MAX_CONCURRENT_DOWNLOADS \<or> downloadQueue s = [] then s
      else
        (let downloadId = hd (downloadQueue s);
             s1 = s\<lparr>downloadQueue := tl (downloadQueue s)\<rparr>
         in if downloadId = [] then s1
            else
              (case find (\<lambda>d. item_id d = downloadId) (downloads s1) of
                 None \<Rightarrow> s1\<lparr>timers := timers s1 @ [captured]\<rparr>
               | Some download \<Rightarrow>
                   if status download \<noteq> Queued then s1\<lparr>timers := timers s1 @ [captured]\<rparr>
                   else if \<not> present (item_url download) \<or> \<not> present (item_formatId download)
                   then s1\<lparr>timers := timers s1 @ [captured]\<rparr>
                   else startDownload downloadId s1)))"

text \<open>
  How \<open>downloadVideo\<close> ends: it resolves, or it rejects with an \<open>AbortError\<close>, an
  \<open>APIError(message, status)\<close> or some other error.
\<close>

datatype transfer_result = Resolved | AbortError | APIError string int | OtherError

text \<open>The message that the \<open>catch\<close> block of \<open>startDownload\<close> stores on the item.\<close>

fun errorMessage :: "transfer_result \<Rightarrow> string" where
  "errorMessage (APIError message st) =
     (if st = 429 then ''Too many downloads at once! Give us a moment and try again.''
      else if st = 413 then ''This file is too large. Try selecting a smaller quality option.''
      else if st = 408 then ''Download took too long. Please try again.''
      else message)"
| "errorMessage _ = ''Download failed. Let's try that again.''"

text \<open>The events: the handlers of the component and the callbacks of a running transfer.\<close>

datatype event =
    HandleDownload string string string string string string
  | Effect
  | Timeout
  | MarkDownloading string
  | ProgressCallback string js_number
  | Finish string transfer_result
  | HandleCancelDownload string
  | HandleRetryDownload string
  | HandleClearCompleted

text \<open>
  One event. \<open>HandleDownload downloadId title channel format url formatId\<close> is
  \<open>handleDownload\<close> with the identifier it builds from the video, the format and the
  clock. \<open>Effect\<close> is a run of the effect: it declares \<open>processQueue\<close> and calls it, and
  the \<open>activeDownloads\<close> of this closure is the current one. React runs the effect after
  every render in which \<open>activeDownloads\<close> or \<open>downloads.length\<close> has changed; the model
  lets it run at any time. \<open>Timeout\<close> is the oldest pending timer firing: the call of
  \<open>processQueue\<close> of the closure that set it. \<open>MarkDownloading\<close>, \<open>ProgressCallback\<close> and
  \<open>Finish\<close> are the three kinds of continuation of \<open>startDownload\<close>; they exist only for
  a transfer in flight.
\<close>

fun step :: "client_state \<Rightarrow> event \<Rightarrow> client_state" where
  "step s (HandleDownload downloadId title channel format url formatId) =
     s\<lparr>downloads :=
         \<lparr>item_id = downloadId, item_title = title, item_channel = channel,
          item_format = format, status = Queued, progress = None, error_message = None,
          abortController = Some (next_controller s), item_url = Some url,
          item_formatId = Some formatId\<rparr> # downloads s,
       downloadQueue := downloadQueue s @ [downloadId],
       next_controller := next_controller s + 1\<rparr>"
| "step s Effect = processQueue (activeDownloads s) s"
| "step s Timeout =
     (case timers s of
        [] \<Rightarrow> s
      | captured # rest \<Rightarrow> processQueue captured (s\<lparr>timers := rest\<rparr>))"
| "step s (MarkDownloading downloadId) =
     (if downloadId \<in> set (in_flight s)
      then s\<lparr>downloads := update_item downloadId (\<lambda>d. d\<lparr>status := Downloading\<rparr>) (downloads s)\<rparr>
      else s)"
| "step s (ProgressCallback downloadId p) =
     (if downloadId \<in> set (in_flight s)
      then s\<lparr>downloads := update_item downloadId (\<lambda>d. d\<lparr>progress := Some p\<rparr>) (downloads s)\<rparr>
      else s)"
| "step s (Finish downloadId r) =
     (if downloadId \<in> set (in_flight s)
      then s\<lparr>downloads :=
               update_item downloadId
                 (\<lambda>d. case r of
                         Resolved \<Rightarrow> d\<lparr>status := Completed\<rparr>
                       | AbortError \<Rightarrow> d\<lparr>status := Cancelled\<rparr>
                       | _ \<Rightarrow> d\<lparr>status := Error, error_message := Some (errorMessage r)\<rparr>)
                 (downloads s),
             activeDownloads := activeDownloads s - 1,
             in_flight := remove1 downloadId (in_flight s)\<rparr>
      else s)"
| "step s (HandleCancelDownload downloadId) =
     (case find (\<lambda>d. item_id d = downloadId) (downloads s) of
        None \<Rightarrow> s
      | Some download \<Rightarrow>
          if status download = Queued
          then s\<lparr>downloadQueue := filter (\<lambda>i. i \<noteq> downloadId) (downloadQueue s),
                 downloads := update_item downloadId (\<lambda>d. d\<lparr>status := Cancelled\<rparr>) (downloads s)\<rparr>
          else (case abortController download of
                  Some c \<Rightarrow> s\<lparr>aborted := c # aborted s\<rparr>
                | None \<Rightarrow> s))"
| "step s (HandleRetryDownload downloadId) =
     (case find (\<lambda>d. item_id d = downloadId) (downloads s) of
        None \<Rightarrow> s
      | Some download \<Rightarrow>
          s\<lparr>downloads :=
              update_item downloadId
                (\<lambda>d. d\<lparr>status := Queued, error_message := None, progress := None,
                       abortController := Some (next_controller s)\<rparr>)
                (downloads s),
            downloadQueue := downloadQueue s @ [downloadId],
            next_controller := next_controller s + 1\<rparr>)"
| "step s HandleClearCompleted =
     s\<lparr>downloads := filter (\<lambda>d. status d \<noteq> Completed) (downloads s)\<rparr>"

text \<open>The state after a sequence of events.\<close>

definition run :: "client_state \<Rightarrow> event list \<Rightarrow> client_state" where
  "run s evs = foldl step s evs"


text \<open>The status of the item with an identifier, if the list has one.\<close>

definition status_of :: "string \<Rightarrow> client_state \<Rightarrow> status option" where
  "status_of downloadId s =
     map_option status (find (\<lambda>d. item_id d = downloadId) (downloads s))"

definition active :: "DownloadItem \<Rightarrow> bool" where
  "active d = (status d = Preparing \<or> status d = Downloading)"

text \<open>
  The test that \<open>processQueue\<close> makes on a dequeued identifier before it starts the
  download: an item with that identifier is found, it is still queued, and it has its
  URL and format identifier.
\<close>

definition admissible :: "DownloadItem list \<Rightarrow> string \<Rightarrow> bool" where
  "admissible ds downloadId =
     (case find (\<lambda>d. item_id d = downloadId) ds of
        None \<Rightarrow> False
      | Some download \<Rightarrow>
          status download = Queued \<and> present (item_url download)
          \<and> present (item_formatId download))"

text \<open>
  Item \<open>a\<close> is out of the queue: its identifier is not pending and no item with it
  is queued or preparing.
\<close>

definition out_of_queue :: "string \<Rightarrow> client_state \<Rightarrow> bool" where
  "out_of_queue a s =
     (a \<notin> set (downloadQueue s)
      \<and> list_all (\<lambda>d. item_id d = a \<longrightarrow> status d \<noteq> Queued \<and> status d \<noteq> Preparing) (downloads s))"

text \<open>Events that put an identifier into the queue: creation and retry.\<close>

fun enqueues :: "string \<Rightarrow> event \<Rightarrow> bool" where
  "enqueues a (HandleDownload downloadId title channel format url formatId) = (downloadId = a)"
| "enqueues a (HandleRetryDownload downloadId) = (downloadId = a)"
| "enqueues a _ = False"


section \<open>JavaScript numbers: proofs\<close>

lemma bitlen_powi:
  assumes "0 < a"
  shows "(2::rat) powi (bitlen a - 1) \<le> of_int a" "of_int a < (2::rat) powi (bitlen a)"
proof -
  from bitlen_bounds[OF assms] have b: "2 ^ nat (bitlen a - 1) \<le> a" "a < 2 ^ nat (bitlen a)" by auto
  have p: "bitlen a \<ge> 1" using assms by (auto simp: bitlen_alt_def)
  have "(of_int (2 ^ nat (bitlen a - 1)) :: rat) \<le> of_int a" using b(1) by (simp only: of_int_le_iff)
  then show "(2::rat) powi (bitlen a - 1) \<le> of_int a" using p by (simp add: power_int_def)
  have "(of_int a :: rat) < of_int (2 ^ nat (bitlen a))" using b(2) by (simp only: of_int_less_iff)
  then show "of_int a < (2::rat) powi (bitlen a)" using p by (simp add: power_int_def)
qed

lemma floor_log2_bounds:
  assumes "0 < x"
  shows "2 powi (floor_log2 x) \<le> x" "x < 2 powi (floor_log2 x + 1)"
proof -
  obtain a b where q: "quotient_of x = (a, b)" by (cases "quotient_of x")
  then have b: "0 < b" and x: "x = of_int a / of_int b"
    using quotient_of_denom_pos quotient_of_div by auto
  have a: "0 < a" using assms b x by (simp add: zero_less_divide_iff)
  note A = bitlen_powi[OF a] and B = bitlen_powi[OF b]
  let ?d = "bitlen a - bitlen b"
  have bpos: "(0::rat) < of_int b" using b by simp
  have up: "x < 2 powi (?d + 1)"
  proof -
    have "x < 2 powi (bitlen a) / of_int b" unfolding x using A(2) bpos by (simp add: divide_strict_right_mono)
    also have "\<dots> \<le> 2 powi (bitlen a) / 2 powi (bitlen b - 1)"
      using B(1) bpos by (intro divide_left_mono) (auto intro!: mult_pos_pos)
    also have "\<dots> = 2 powi (bitlen a - (bitlen b - 1))"
      by (rule power_int_diff[symmetric]) simp
    also have "bitlen a - (bitlen b - 1) = ?d + 1" by simp
    finally show ?thesis .
  qed
  have lo: "2 powi (?d - 1) \<le> x"
  proof -
    have "?d - 1 = (bitlen a - 1) - bitlen b" by simp
    then have "(2::rat) powi (?d - 1) = 2 powi ((bitlen a - 1) - bitlen b)" by (simp only:)
    also have "\<dots> = 2 powi (bitlen a - 1) / 2 powi (bitlen b)"
      by (rule power_int_diff) simp
    also have "\<dots> \<le> of_int a / 2 powi (bitlen b)" using A(1) by (simp add: divide_right_mono)
    also have "\<dots> \<le> of_int a / of_int b"
      using B(2) a bpos by (intro divide_left_mono) (auto intro!: mult_pos_pos)
    finally show ?thesis unfolding x .
  qed
  show "2 powi (floor_log2 x) \<le> x" using lo by (simp add: floor_log2_def q Let_def)
  show "x < 2 powi (floor_log2 x + 1)" using up by (auto simp add: floor_log2_def q Let_def not_le)
qed


lemma round_ties_even_int [simp]: "round_ties_even (of_int n) = n"
  by (simp add: round_ties_even_def)


lemma powi_less_cancel: "(2::rat) powi a < 2 powi b \<Longrightarrow> a < b"
  by (metis linorder_not_less one_le_numeral power_int_increasing)


lemma to_double_int_exact:
  assumes "\<bar>n\<bar> < 2 ^ 53"
  shows "to_double (of_int n) = Finite (of_int n)"
proof (cases "n = 0")
  case True
  then show ?thesis by (simp add: to_double_def)
next
  case False
  let ?x = "of_int n :: rat"
  have ax: "\<bar>?x\<bar> = of_int \<bar>n\<bar>" by simp
  have pos: "0 < \<bar>?x\<bar>" using False by simp
  note fl = floor_log2_bounds[OF pos]
  let ?k = "floor_log2 \<bar>?x\<bar>"
  have "(of_int \<bar>n\<bar> :: rat) < of_int (2 ^ 53)" using assms by (simp only: of_int_less_iff)
  then have x53: "\<bar>?x\<bar> < 2 ^ 53" by simp
  then have "(2::rat) powi ?k < 2 powi 53" using fl(1) by simp
  then have k53: "?k < 53" by (rule powi_less_cancel)
  have "1 \<le> \<bar>n\<bar>" using False by simp
  then have "(of_int 1 :: rat) \<le> of_int \<bar>n\<bar>" by (simp only: of_int_le_iff)
  then have "(2::rat) powi 0 \<le> \<bar>?x\<bar>" by simp
  then have "(2::rat) powi 0 < 2 powi (?k + 1)" using fl(2) by (rule order_le_less_trans)
  then have k0: "0 \<le> ?k" using powi_less_cancel by fastforce
  let ?e = "?k - 52"
  have e: "max (?k - 52) (- 1074) = ?e" using k0 by simp
  have "?x / 2 powi ?e = ?x * 2 powi (- ?e)" by (simp only: power_int_minus divide_inverse)
  also have "\<dots> = ?x * 2 ^ nat (- ?e)" using k53 by (simp add: power_int_def)
  also have "\<dots> = of_int (n * 2 ^ nat (- ?e))" by simp
  finally have "round_ties_even (?x / 2 powi ?e) = n * 2 ^ nat (- ?e)"
    by (simp only: round_ties_even_int)
  then have "of_int (round_ties_even (?x / 2 powi ?e)) * (2::rat) powi ?e
              = ?x * 2 ^ nat (- ?e) * 2 powi ?e" by simp
  also have "\<dots> = ?x * (2 powi (- ?e) * 2 powi ?e)" using k53 by (simp add: power_int_def)
  also have "\<dots> = ?x"
  proof -
    have "(2::rat) powi (- ?e) * 2 powi ?e = 2 powi (- ?e + ?e)"
      by (rule power_int_add[symmetric]) simp
    also have "- ?e + ?e = 0" by simp
    finally have "(2::rat) powi (- ?e) * 2 powi ?e = 1" by simp
    then show ?thesis by (simp only: mult_1_right)
  qed
  finally have y: "of_int (round_ties_even (?x / 2 powi ?e)) * (2::rat) powi ?e = ?x" .
  have "(2::rat) ^ 53 < 2 ^ 1024" by (rule power_strict_increasing) simp_all
  with x53 have "\<bar>?x\<bar> < 2 ^ 1024" by (rule less_trans)
  then have "\<not> 2 ^ 1024 \<le> ?x" "\<not> ?x \<le> - (2 ^ 1024)" by linarith+
  then show ?thesis using False y by (simp add: to_double_def Let_def e del: of_int_abs)
qed

lemma to_double_nat_exact:
  assumes "n < 2 ^ 53"
  shows "to_double (of_nat n) = Finite (of_nat n)"
proof -
  have "int n < int (2 ^ 53)" using assms by (simp only: of_nat_less_iff)
  then have "\<bar>int n\<bar> < 2 ^ 53" by simp
  from to_double_int_exact[OF this] show ?thesis by simp
qed


lemma to_double_numeral:
  "(numeral k :: int) < 2 ^ 53 \<Longrightarrow> to_double (numeral k) = Finite (numeral k)"
  "(numeral k :: int) < 2 ^ 53 \<Longrightarrow> to_double (- numeral k) = Finite (- numeral k)"
proof -
  assume "(numeral k :: int) < 2 ^ 53"
  then have a: "\<bar>numeral k :: int\<bar> < 2 ^ 53" "\<bar>- numeral k :: int\<bar> < 2 ^ 53" by simp_all
  have "to_double (of_int (numeral k)) = Finite (of_int (numeral k))"
    using a(1) by (rule to_double_int_exact)
  then show "to_double (numeral k) = Finite (numeral k)" by (simp only: of_int_numeral)
  have "to_double (of_int (- numeral k)) = Finite (of_int (- numeral k))"
    using a(2) by (rule to_double_int_exact)
  then show "to_double (- numeral k) = Finite (- numeral k)" by (simp only: of_int_neg_numeral)
qed

section \<open>Rate limiter: proofs\<close>

lemma sweep_Some_iff: "sweep now m k = Some v \<longleftrightarrow> m k = Some v \<and> \<not> now > resetTime v"
  by (auto simp: sweep_def split: option.splits)

lemma sweep_None_iff: "sweep now m k = None \<longleftrightarrow> (m k = None \<or> (\<exists>v. m k = Some v \<and> now > resetTime v))"
  by (auto simp: sweep_def split: option.splits)

lemma checkRateLimit_limiter: "checkRateLimit = limiter 60000 30"
  by (auto simp: fun_eq_iff checkRateLimit_def limiter_def Let_def RATE_LIMIT_WINDOW_def
      RATE_LIMIT_MAX_REQUESTS_def sweep_Some_iff sweep_None_iff split: option.splits)

lemma checkDownloadRateLimit_limiter: "checkDownloadRateLimit = limiter 60000 10"
  by (auto simp: fun_eq_iff checkDownloadRateLimit_def limiter_def Let_def DOWNLOAD_RATE_LIMIT_WINDOW_def
      DOWNLOAD_RATE_LIMIT_MAX_REQUESTS_def sweep_Some_iff sweep_None_iff split: option.splits)

lemma limiter_other_key:
  assumes "m ip = Some e" "now \<le> resetTime e" "k \<noteq> ip"
  shows "snd (limiter W N now m k) ip = Some e"
  using assms by (auto simp: limiter_def sweep_Some_iff sweep_def split: option.splits)

lemma limiter_same_key:
  assumes "m ip = Some e" "now \<le> resetTime e"
  shows "limiter W N now m ip =
           (if count e < N then (True, (sweep now m)(ip \<mapsto> e\<lparr>count := count e + 1\<rparr>))
            else (False, sweep now m))"
  using assms by (auto simp: limiter_def sweep_def split: option.splits)

lemma limiter_fresh:
  assumes "m ip = None \<or> (\<exists>e. m ip = Some e \<and> now > resetTime e)"
  shows "limiter W N now m ip = (True, (sweep now m)(ip \<mapsto> \<lparr>count = 1, resetTime = now + W\<rparr>))"
  using assms by (auto simp: limiter_def sweep_def split: option.splits)

lemma within_window:
  assumes "m ip = Some e" "\<forall>ev \<in> set evs. fst ev \<le> resetTime e"
  shows "answers_for ip evs (fst (calls (limiter W N) m evs))
           = map (\<lambda>j. count e + j < N) [0..<count_calls ip evs]
         \<and> (\<exists>e'. snd (calls (limiter W N) m evs) ip = Some e' \<and> resetTime e' = resetTime e)"
  using assms
proof (induction evs arbitrary: m e)
  case Nil
  then show ?case by (simp add: count_calls_def)
next
  case (Cons ev evs)
  obtain now k where ev: "ev = (now, k)" by (cases ev)
  have now: "now \<le> resetTime e" using Cons.prems(2) ev by simp
  have rest: "\<forall>ev \<in> set evs. fst ev \<le> resetTime e" using Cons.prems(2) by simp
  obtain ok m1 where step: "limiter W N now m k = (ok, m1)" by (cases "limiter W N now m k")
  have unfold_calls: "calls (limiter W N) m (ev # evs)
      = (ok # fst (calls (limiter W N) m1 evs), snd (calls (limiter W N) m1 evs))"
    using ev step by (simp add: split_beta)
  show ?case
  proof (cases "k = ip")
    case False
    have st: "m1 ip = Some e"
      using limiter_other_key[where m=m and ip=ip and e=e and k=k and W=W and N=N and now=now]
        Cons.prems(1) now False step by simp
    have IH: "answers_for ip evs (fst (calls (limiter W N) m1 evs))
           = map (\<lambda>j. count e + j < N) [0..<count_calls ip evs]
         \<and> (\<exists>e'. snd (calls (limiter W N) m1 evs) ip = Some e' \<and> resetTime e' = resetTime e)"
      using st rest by (rule Cons.IH)
    have cc: "count_calls ip (ev # evs) = count_calls ip evs"
      using False ev by (simp add: count_calls_def)
    show ?thesis
      unfolding unfold_calls cc using IH False ev by simp
  next
    case True
    have cc: "count_calls ip (ev # evs) = Suc (count_calls ip evs)"
      using True ev by (simp add: count_calls_def)
    show ?thesis
    proof (cases "count e < N")
      case lt: True
      let ?e = "e\<lparr>count := count e + 1\<rparr>"
      have ok: "ok = True" and st: "m1 ip = Some ?e"
        using limiter_same_key[where m=m and ip=ip and e=e and W=W and N=N and now=now]
          Cons.prems(1) now lt step True by auto
      have rest': "\<forall>ev \<in> set evs. fst ev \<le> resetTime ?e" using rest by simp
      have IH: "answers_for ip evs (fst (calls (limiter W N) m1 evs))
           = map (\<lambda>j. count ?e + j < N) [0..<count_calls ip evs]
         \<and> (\<exists>e'. snd (calls (limiter W N) m1 evs) ip = Some e' \<and> resetTime e' = resetTime ?e)"
        using st rest' by (rule Cons.IH)
      have "map (\<lambda>j. count e + j < N) [0..<Suc (count_calls ip evs)]
            = (count e < N) # map (\<lambda>j. count ?e + j < N) [0..<count_calls ip evs]"
        by (simp add: upt_conv_Cons map_Suc_upt[symmetric] del: upt_Suc)
      then show ?thesis
        unfolding unfold_calls cc using IH ok lt True ev by simp
    next
      case ge: False
      have ok: "ok = False" and st: "m1 ip = Some e"
        using limiter_same_key[where m=m and ip=ip and e=e and W=W and N=N and now=now]
          Cons.prems(1) now ge step True by (auto simp: sweep_Some_iff)
      have IH: "answers_for ip evs (fst (calls (limiter W N) m1 evs))
           = map (\<lambda>j. count e + j < N) [0..<count_calls ip evs]
         \<and> (\<exists>e'. snd (calls (limiter W N) m1 evs) ip = Some e' \<and> resetTime e' = resetTime e)"
        using st rest by (rule Cons.IH)
      have "map (\<lambda>j. count e + j < N) [0..<Suc (count_calls ip evs)]
            = False # map (\<lambda>j. count e + j < N) [0..<count_calls ip evs]"
        using ge by (simp add: upt_conv_Cons map_Suc_upt[symmetric] del: upt_Suc)
      then show ?thesis
        unfolding unfold_calls cc using IH ok ge True ev by simp
    qed
  qed
qed


lemma sweep_char:
  "sweep now m k = (if \<exists>v. m k = Some v \<and> now > resetTime v then None else m k)"
  by (auto simp: sweep_def split: option.splits)

lemma first_window:
  assumes fresh: "m ip = None \<or> (\<exists>e. m ip = Some e \<and> t0 > resetTime e)"
      and win: "\<forall>ev \<in> set evs. fst ev \<le> t0 + W"
      and pos: "0 < N"
  shows "answers_for ip ((t0, ip) # evs) (fst (calls (limiter W N) m ((t0, ip) # evs)))
           = map (\<lambda>j. j < N) [0..<Suc (count_calls ip evs)]"
    and "\<exists>e'. snd (calls (limiter W N) m ((t0, ip) # evs)) ip = Some e' \<and> resetTime e' = t0 + W"
proof -
  define e0 where "e0 = \<lparr>count = 1, resetTime = t0 + W\<rparr>"
  define m1 where "m1 = (sweep t0 m)(ip \<mapsto> e0)"
  have step: "limiter W N t0 m ip = (True, m1)"
    using limiter_fresh[where m=m and ip=ip and now=t0 and W=W and N=N] fresh
    by (simp add: m1_def e0_def)
  have st: "m1 ip = Some e0" by (simp add: m1_def)
  have win': "\<forall>ev \<in> set evs. fst ev \<le> resetTime e0" using win by (simp add: e0_def)
  have ww: "answers_for ip evs (fst (calls (limiter W N) m1 evs))
           = map (\<lambda>j. count e0 + j < N) [0..<count_calls ip evs]
         \<and> (\<exists>e'. snd (calls (limiter W N) m1 evs) ip = Some e' \<and> resetTime e' = resetTime e0)"
    using st win' by (rule within_window)
  have unfold_calls: "calls (limiter W N) m ((t0, ip) # evs)
      = (True # fst (calls (limiter W N) m1 evs), snd (calls (limiter W N) m1 evs))"
    using step by (simp add: split_beta)
  have "map (\<lambda>j. j < N) [0..<Suc (count_calls ip evs)]
            = (0 < N) # map (\<lambda>j. count e0 + j < N) [0..<count_calls ip evs]"
    by (simp add: upt_conv_Cons map_Suc_upt[symmetric] e0_def del: upt_Suc)
  then show "answers_for ip ((t0, ip) # evs) (fst (calls (limiter W N) m ((t0, ip) # evs)))
           = map (\<lambda>j. j < N) [0..<Suc (count_calls ip evs)]"
    unfolding unfold_calls using ww pos by simp
  show "\<exists>e'. snd (calls (limiter W N) m ((t0, ip) # evs)) ip = Some e' \<and> resetTime e' = t0 + W"
    unfolding unfold_calls using ww by (simp add: e0_def)
qed


text \<open>
  Claim C1. Let \<open>check\<close> be the metadata limiter (window 60000 ms, maximum 30) or the
  download limiter (window 60000 ms, maximum 10). For every stored map, clock reading and
  client key:
  \<^item> the map that the check works on, and returns, is the stored map without exactly the
    entries whose reset time has passed;
  \<^item> if the key has no entry, or its entry has expired, the check allows and stores
    \<open>count = 1\<close>, \<open>resetTime = now + window\<close>;
  \<^item> if the key has a live entry with a count below the maximum, the check allows and
    increments the count;
  \<^item> if the live entry's count is at or above the maximum, the check denies and leaves
    the entry as it is.

  Consequently, for a key with no entry whose first call is at \<open>t0\<close>, followed by any
  calls (of any keys) none later than \<open>t0 + window\<close>: the key's calls are allowed
  exactly up to the \<open>N\<close>-th, so the \<open>(N+1)\<close>-th is denied; and a further call of the key at
  any time after \<open>t0 + window\<close> is allowed and leaves the key with count 1 and a new
  window.
\<close>

theorem rate_limit_check:
  assumes cfg: "(check, W, N) = (checkRateLimit, 60000, 30)
              \<or> (check, W, N) = (checkDownloadRateLimit, 60000, 10)"
  shows "(\<forall>k. sweep now m k = (if \<exists>v. m k = Some v \<and> now > resetTime v then None else m k))
       \<and> ((m ip = None \<or> (\<exists>e. m ip = Some e \<and> now > resetTime e)) \<longrightarrow>
            check now m ip = (True, (sweep now m)(ip \<mapsto> \<lparr>count = 1, resetTime = now + W\<rparr>)))
       \<and> (\<forall>e. m ip = Some e \<and> now \<le> resetTime e \<and> count e < N \<longrightarrow>
            check now m ip = (True, (sweep now m)(ip \<mapsto> e\<lparr>count := count e + 1\<rparr>)))
       \<and> (\<forall>e. m ip = Some e \<and> now \<le> resetTime e \<and> count e \<ge> N \<longrightarrow>
            check now m ip = (False, sweep now m))
       \<and> (m ip = None \<and> (\<forall>ev \<in> set evs. fst ev \<le> t0 + W) \<longrightarrow>
            (let (oks, m') = calls check m ((t0, ip) # evs);
                 given = answers_for ip ((t0, ip) # evs) oks
             in given = map (\<lambda>j. j < N) [0..<Suc (count_calls ip evs)]
              \<and> (N \<le> count_calls ip evs \<longrightarrow> \<not> given ! N)
              \<and> (\<forall>t. t > t0 + W \<longrightarrow>
                    fst (check t m' ip) \<and>
                    snd (check t m' ip) ip = Some \<lparr>count = 1, resetTime = t + W\<rparr>)))"
proof -
  from cfg have chk: "check = limiter W N" and pos: "0 < N"
    by (auto simp: checkRateLimit_limiter checkDownloadRateLimit_limiter)
  have A: "\<forall>k. sweep now m k = (if \<exists>v. m k = Some v \<and> now > resetTime v then None else m k)"
    by (simp add: sweep_char)
  have B: "(m ip = None \<or> (\<exists>e. m ip = Some e \<and> now > resetTime e)) \<longrightarrow>
            check now m ip = (True, (sweep now m)(ip \<mapsto> \<lparr>count = 1, resetTime = now + W\<rparr>))"
    unfolding chk using limiter_fresh[where m=m and ip=ip and now=now and W=W and N=N] by blast
  have C: "\<forall>e. m ip = Some e \<and> now \<le> resetTime e \<and> count e < N \<longrightarrow>
            check now m ip = (True, (sweep now m)(ip \<mapsto> e\<lparr>count := count e + 1\<rparr>))"
    unfolding chk using limiter_same_key[where m=m and ip=ip and now=now and W=W and N=N] by simp
  have D: "\<forall>e. m ip = Some e \<and> now \<le> resetTime e \<and> count e \<ge> N \<longrightarrow>
            check now m ip = (False, sweep now m)"
    unfolding chk using limiter_same_key[where m=m and ip=ip and now=now and W=W and N=N] by simp
  have E: "m ip = None \<and> (\<forall>ev \<in> set evs. fst ev \<le> t0 + W) \<longrightarrow>
            (let (oks, m') = calls check m ((t0, ip) # evs);
                 given = answers_for ip ((t0, ip) # evs) oks
             in given = map (\<lambda>j. j < N) [0..<Suc (count_calls ip evs)]
              \<and> (N \<le> count_calls ip evs \<longrightarrow> \<not> given ! N)
              \<and> (\<forall>t. t > t0 + W \<longrightarrow>
                    fst (check t m' ip) \<and>
                    snd (check t m' ip) ip = Some \<lparr>count = 1, resetTime = t + W\<rparr>))"
  proof (intro impI, elim conjE)
    assume fresh: "m ip = None" and win: "\<forall>ev \<in> set evs. fst ev \<le> t0 + W"
    define res where "res = calls (limiter W N) m ((t0, ip) # evs)"
    define given where "given = answers_for ip ((t0, ip) # evs) (fst res)"
    have g: "given = map (\<lambda>j. j < N) [0..<Suc (count_calls ip evs)]"
      unfolding given_def res_def using fresh win pos by (intro first_window(1)) auto
    obtain e' where e': "snd res ip = Some e'" "resetTime e' = t0 + W"
      unfolding res_def using first_window(2)[where m=m and ip=ip and ?t0.0=t0 and evs=evs and W=W and N=N]
        fresh win pos by auto
    have nth: "N \<le> count_calls ip evs \<longrightarrow> \<not> given ! N"
    proof
      assume "N \<le> count_calls ip evs"
      then have "N < length [0..<Suc (count_calls ip evs)]" by simp
      then have "given ! N = ([0..<Suc (count_calls ip evs)] ! N < N)"
        unfolding g by (subst nth_map) auto
      also have "\<dots> = False" using \<open>N \<le> count_calls ip evs\<close>
        by (simp add: nth_upt del: upt_Suc)
      finally show "\<not> given ! N" by simp
    qed
    have later: "\<forall>t. t > t0 + W \<longrightarrow>
                    fst (limiter W N t (snd res) ip) \<and>
                    snd (limiter W N t (snd res) ip) ip = Some \<lparr>count = 1, resetTime = t + W\<rparr>"
    proof (intro allI impI)
      fix t assume "t > t0 + W"
      then have "limiter W N t (snd res) ip
                  = (True, (sweep t (snd res))(ip \<mapsto> \<lparr>count = 1, resetTime = t + W\<rparr>))"
        using limiter_fresh[where m="snd res" and ip=ip and now=t and W=W and N=N] e' by simp
      then show "fst (limiter W N t (snd res) ip) \<and>
                    snd (limiter W N t (snd res) ip) ip = Some \<lparr>count = 1, resetTime = t + W\<rparr>"
        by simp
    qed
    show "(let (oks, m') = calls check m ((t0, ip) # evs);
                 given = answers_for ip ((t0, ip) # evs) oks
             in given = map (\<lambda>j. j < N) [0..<Suc (count_calls ip evs)]
              \<and> (N \<le> count_calls ip evs \<longrightarrow> \<not> given ! N)
              \<and> (\<forall>t. t > t0 + W \<longrightarrow>
                    fst (check t m' ip) \<and>
                    snd (check t m' ip) ip = Some \<lparr>count = 1, resetTime = t + W\<rparr>))"
      unfolding chk Let_def split_beta
      using g nth later unfolding given_def res_def by blast
  qed
  from A B C D E show ?thesis by blast
qed

theorem rate_limit_check_witness:
  "((checkDownloadRateLimit, 60000, 10) = (checkRateLimit, 60000, 30)
      \<or> (checkDownloadRateLimit, (60000::int), (10::nat)) = (checkDownloadRateLimit, 60000, 10))
   \<and> (Map.empty :: rl_map) ''10.0.0.1'' = None
   \<and> list_all (\<lambda>ev. fst ev \<le> (0::int) + 60000) (replicate 10 (500, ''10.0.0.1''))
   \<and> answers_for ''10.0.0.1'' ((0, ''10.0.0.1'') # replicate 10 (500, ''10.0.0.1''))
        (fst (calls checkDownloadRateLimit Map.empty ((0, ''10.0.0.1'') # replicate 10 (500, ''10.0.0.1''))))
      = replicate 10 True @ [False]
   \<and> fst (checkDownloadRateLimit 60001
            (snd (calls checkDownloadRateLimit Map.empty ((0, ''10.0.0.1'') # replicate 10 (500, ''10.0.0.1''))))
            ''10.0.0.1'')"
proof -
  define evs where "evs = replicate 10 (500::int, ''10.0.0.1'')"
  define res where "res = calls checkDownloadRateLimit Map.empty ((0, ''10.0.0.1'') # evs)"
  have cfg: "(checkDownloadRateLimit, 60000, 10) = (checkRateLimit, 60000, 30)
      \<or> (checkDownloadRateLimit, (60000::int), (10::nat)) = (checkDownloadRateLimit, 60000, 10)"
    by simp
  have fresh: "(Map.empty :: rl_map) ''10.0.0.1'' = None" by simp
  have win: "\<forall>ev \<in> set evs. fst ev \<le> (0::int) + 60000" by (simp add: evs_def)
  have cc: "count_calls ''10.0.0.1'' evs = 10"
    by (simp add: count_calls_def evs_def)
  have m: "map (\<lambda>j. j < (10::nat)) [0..<Suc 10] = replicate 10 True @ [False]"
    by code_simp
  note T = rate_limit_check[OF cfg, where m=Map.empty and ip="''10.0.0.1''" and ?t0.0=0
        and evs=evs and now=0]
  note E = T[THEN conjunct2, THEN conjunct2, THEN conjunct2, THEN conjunct2, rule_format,
             OF conjI, OF fresh win]
  have E1: "answers_for ''10.0.0.1'' ((0, ''10.0.0.1'') # evs) (fst res)
              = map (\<lambda>j. j < (10::nat)) [0..<Suc 10]"
    and E2: "\<forall>t. t > 0 + 60000 \<longrightarrow> fst (checkDownloadRateLimit t (snd res) ''10.0.0.1'')"
    using E unfolding res_def cc by (simp_all only: Let_def split_beta) blast+
  have E3: "fst (checkDownloadRateLimit 60001 (snd res) ''10.0.0.1'')"
    using E2 by simp
  show ?thesis
    using cfg fresh win E1 E3 unfolding m res_def evs_def list_all_iff by blast
qed

section \<open>File names: the two sanitizers\<close>

lemma is_js_space_space: "is_js_space CHR '' ''"
  by (simp add: is_js_space_def)

lemma is_js_space_printable: "printable_ascii c \<Longrightarrow> is_js_space c \<longleftrightarrow> c = CHR '' ''"
proof -
  assume p: "printable_ascii c"
  have "of_char (CHR '' '') = (32::nat)" by simp
  then have "(of_char c :: nat) = 32 \<longleftrightarrow> c = CHR '' ''"
    by (metis of_char_eq_iff)
  then show ?thesis using p unfolding is_js_space_def printable_ascii_def by auto
qed

lemma replace_space_runs_id:
  "list_all printable_ascii t \<Longrightarrow> no_double_space t \<Longrightarrow> replace_space_runs t = t"
proof (induction t rule: no_double_space.induct)
  case (1 a b cs)
  then show ?case
    by (auto simp: is_js_space_printable)
qed (auto simp: is_js_space_printable)

lemma sanitizers_agree:
  assumes "no_double_space (filter printable_ascii (filter (\<lambda>c. \<not> invalid_filename_char c) s))"
  shows "sanitizeFilename_server s = sanitizeFilename_client s"
proof -
  have "list_all printable_ascii (filter printable_ascii (filter (\<lambda>c. \<not> invalid_filename_char c) s))"
    by (simp add: list_all_iff)
  then show ?thesis
    using assms by (simp add: sanitizeFilename_server_def sanitizeFilename_client_def
        replace_space_runs_id)
qed

text \<open>
  Claim C10. The claim says that the client-side and the server-side \<open>sanitizeFilename\<close>
  compute the same output for every input, runs of internal white space included. On the
  title \<open>a  b\<close> (two spaces) the server-side function returns \<open>a b\<close> and the client-side
  function returns \<open>a  b\<close>: the client-side function has no step that replaces a run of
  white space by one space. (\<open>sanitizers_agree\<close> above: the two agree whenever the input,
  after the two character filters, has no two adjacent spaces.)
\<close>

theorem sanitizeFilename_client_keeps_space_runs:
  "sanitizeFilename_server ''a  b'' = ''a b''
   \<and> sanitizeFilename_client ''a  b'' = ''a  b''
   \<and> sanitizeFilename_server ''a  b'' \<noteq> sanitizeFilename_client ''a  b''"
  by (simp add: sanitizeFilename_server_def sanitizeFilename_client_def substring0_def trim_def
      is_js_space_def printable_ascii_def invalid_filename_char_def)

section \<open>Download route and browser API module: proofs\<close>

lemma js_includes_iff_sublist: "js_includes s sub \<longleftrightarrow> sublist sub s"
  by (induction s) (auto simp: sublist_Cons_right)

lemma alphabet_codes:
  "list_all (\<lambda>n. (char_of (n::nat) :: char)
      \<in> set ''abcdefghijklmnopqrstuvwxyzABCDEFGHIJKLMNOPQRSTUVWXYZ0123456789_-'')
     ([97..<123] @ [65..<91] @ [48..<58])"
  by code_simp

lemma alphabet_chars:
  "list_all format_id_char ''abcdefghijklmnopqrstuvwxyzABCDEFGHIJKLMNOPQRSTUVWXYZ0123456789_-''"
  by (simp add: format_id_char_def)

lemma format_id_char_alphabet:
  "format_id_char c \<longleftrightarrow>
     c \<in> set ''abcdefghijklmnopqrstuvwxyzABCDEFGHIJKLMNOPQRSTUVWXYZ0123456789_-''"
    (is "_ \<longleftrightarrow> c \<in> set ?A")
proof
  assume "c \<in> set ?A"
  then show "format_id_char c" using alphabet_chars unfolding list_all_iff by blast
next
  assume f: "format_id_char c"
  define n where "n = (of_char c :: nat)"
  have c: "c = char_of n" by (simp add: n_def)
  show "c \<in> set ?A"
  proof (cases "c = CHR ''_'' \<or> c = CHR ''-''")
    case True
    then show ?thesis by auto
  next
    case False
    with f have "(97 \<le> n \<and> n < 123) \<or> (65 \<le> n \<and> n < 91) \<or> (48 \<le> n \<and> n < 58)"
      unfolding format_id_char_def n_def Let_def by auto
    then have "n \<in> set ([97..<123] @ [65..<91] @ [48..<58])"
      by (simp only: set_append set_upt Un_iff atLeastLessThan_iff)
    then have "(char_of n :: char) \<in> set ?A"
      using alphabet_codes unfolding list_all_iff by blast
    then show ?thesis using c by simp
  qed
qed

lemma validateFormatId_alphabet:
  "validateFormatId f \<longleftrightarrow>
     f \<noteq> [] \<and> length f \<le> 20 \<and>
     set f \<subseteq> set ''abcdefghijklmnopqrstuvwxyzABCDEFGHIJKLMNOPQRSTUVWXYZ0123456789_-''"
  unfolding validateFormatId_def list_all_iff using format_id_char_alphabet by blast


lemma run_download_commands:
  "commands (run_download exec tempDir rl files u f filename)
     = [download_command tempDir u f filename]"
  unfolding run_download_def Let_def
  by (simp split: prod.splits exec_outcome.splits list.splits option.splits)

lemma POST_download_cases:
  "(\<exists>r. POST_download exec tempDir now rl files ip body
          = \<lparr>response = r, rateLimitMap' = snd (checkDownloadRateLimit now rl ip),
             files' = files, commands = []\<rparr>)
   \<or> (\<exists>u f t c filename.
         body = Body (Str u) (Str f) t c \<and> u \<noteq> [] \<and> validateFormatId f
         \<and> fst (checkDownloadRateLimit now rl ip)
         \<and> filename_of t c = Some filename
         \<and> POST_download exec tempDir now rl files ip body
             = run_download exec tempDir (snd (checkDownloadRateLimit now rl ip)) files u f filename)"
  unfolding POST_download_def Let_def
  by (auto split: prod.splits request_body.splits jsval.splits option.splits)

lemma POST_download_invoked:
  assumes "commands (POST_download exec tempDir now rl files ip body) \<noteq> []"
  shows "\<exists>u f t c filename.
         body = Body (Str u) (Str f) t c \<and> u \<noteq> [] \<and> validateFormatId f
         \<and> fst (checkDownloadRateLimit now rl ip)
         \<and> filename_of t c = Some filename
         \<and> POST_download exec tempDir now rl files ip body
             = run_download exec tempDir (snd (checkDownloadRateLimit now rl ip)) files u f filename"
  using POST_download_cases[of exec tempDir now rl files ip body] assms by auto

lemma POST_download_bad_format:
  assumes "body = Body url formatId title channel"
      and "\<not> (\<exists>f. formatId = Str f \<and> validateFormatId f)"
  shows "commands (POST_download exec tempDir now rl files ip body) = []
       \<and> files' (POST_download exec tempDir now rl files ip body) = files
       \<and> (if fst (checkDownloadRateLimit now rl ip)
          then \<exists>msg. response (POST_download exec tempDir now rl files ip body) = Json 400 msg
          else response (POST_download exec tempDir now rl files ip body)
                 = Json 429 ''Download rate limit exceeded. Please try again later.'')"
  using assms unfolding POST_download_def Let_def
  by (auto split: prod.splits request_body.splits jsval.splits option.splits)


text \<open>
  Claim C6 (as amended). For every request to the download route:
  \<^item> if the handler runs a subprocess at all, the body's \<open>formatId\<close> is a string that is
    non-empty, at most 20 characters long and made only of letters, digits, hyphen and
    underscore, and the one command line run is the template with that string after
    \<open>-f\<close>;
  \<^item> if the body carries any other format identifier, no subprocess is run and the
    directory is untouched; the response is HTTP 400 when the rate limiter has admitted
    the request, and HTTP 429 when it has not.
\<close>

theorem format_id_gate:
  "(commands (POST_download exec tempDir now rl files clientIP body) \<noteq> [] \<longrightarrow>
      (\<exists>u f t c filename.
         body = Body (Str u) (Str f) t c
         \<and> f \<noteq> [] \<and> length f \<le> 20
         \<and> set f \<subseteq> set ''abcdefghijklmnopqrstuvwxyzABCDEFGHIJKLMNOPQRSTUVWXYZ0123456789_-''
         \<and> filename_of t c = Some filename
         \<and> commands (POST_download exec tempDir now rl files clientIP body)
             = [''yt-dlp -f '' @ f @ '' -o '' @ [CHR 0x22] @ tempDir @ ''/'' @ filename
                @ ''.%(ext)s'' @ [CHR 0x22] @ '' --no-warnings '' @ [CHR 0x22] @ u @ [CHR 0x22]]))
   \<and> (\<forall>url formatId title channel.
         body = Body url formatId title channel
         \<and> \<not> (\<exists>f. formatId = Str f \<and> f \<noteq> [] \<and> length f \<le> 20
                  \<and> set f \<subseteq> set ''abcdefghijklmnopqrstuvwxyzABCDEFGHIJKLMNOPQRSTUVWXYZ0123456789_-'')
         \<longrightarrow>
           commands (POST_download exec tempDir now rl files clientIP body) = []
           \<and> files' (POST_download exec tempDir now rl files clientIP body) = files
           \<and> (if fst (checkDownloadRateLimit now rl clientIP)
               then \<exists>msg. response (POST_download exec tempDir now rl files clientIP body)
                            = Json 400 msg
               else response (POST_download exec tempDir now rl files clientIP body)
                      = Json 429 ''Download rate limit exceeded. Please try again later.''))"
proof (intro conjI impI allI)
  assume inv: "commands (POST_download exec tempDir now rl files clientIP body) \<noteq> []"
  from POST_download_invoked[OF inv] obtain u f t c filename where
    b: "body = Body (Str u) (Str f) t c" and v: "validateFormatId f"
    and fn: "filename_of t c = Some filename"
    and r: "POST_download exec tempDir now rl files clientIP body
             = run_download exec tempDir (snd (checkDownloadRateLimit now rl clientIP)) files u f filename"
    by blast
  have cmd: "commands (POST_download exec tempDir now rl files clientIP body)
             = [''yt-dlp -f '' @ f @ '' -o '' @ [CHR 0x22] @ tempDir @ ''/'' @ filename
                @ ''.%(ext)s'' @ [CHR 0x22] @ '' --no-warnings '' @ [CHR 0x22] @ u @ [CHR 0x22]]"
    unfolding r run_download_commands
    by (simp add: download_command_def getYtDlpCommand_def join_def)
  from v have "f \<noteq> [] \<and> length f \<le> 20
         \<and> set f \<subseteq> set ''abcdefghijklmnopqrstuvwxyzABCDEFGHIJKLMNOPQRSTUVWXYZ0123456789_-''"
    using validateFormatId_alphabet[of f] by blast
  with b fn cmd show "\<exists>u f t c filename.
         body = Body (Str u) (Str f) t c
         \<and> f \<noteq> [] \<and> length f \<le> 20
         \<and> set f \<subseteq> set ''abcdefghijklmnopqrstuvwxyzABCDEFGHIJKLMNOPQRSTUVWXYZ0123456789_-''
         \<and> filename_of t c = Some filename
         \<and> commands (POST_download exec tempDir now rl files clientIP body)
             = [''yt-dlp -f '' @ f @ '' -o '' @ [CHR 0x22] @ tempDir @ ''/'' @ filename
                @ ''.%(ext)s'' @ [CHR 0x22] @ '' --no-warnings '' @ [CHR 0x22] @ u @ [CHR 0x22]]"
    by blast
next
  fix url formatId title channel
  assume a: "body = Body url formatId title channel
         \<and> \<not> (\<exists>f. formatId = Str f \<and> f \<noteq> [] \<and> length f \<le> 20
                  \<and> set f \<subseteq> set ''abcdefghijklmnopqrstuvwxyzABCDEFGHIJKLMNOPQRSTUVWXYZ0123456789_-'')"
  then have b: "body = Body url formatId title channel"
    and nv: "\<not> (\<exists>f. formatId = Str f \<and> validateFormatId f)"
    using validateFormatId_alphabet by blast+
  note bad = POST_download_bad_format[OF b nv, of exec tempDir now rl files clientIP]
  from bad show "commands (POST_download exec tempDir now rl files clientIP body) = []" by blast
  from bad show "files' (POST_download exec tempDir now rl files clientIP body) = files" by blast
  from bad show "if fst (checkDownloadRateLimit now rl clientIP)
               then \<exists>msg. response (POST_download exec tempDir now rl files clientIP body)
                            = Json 400 msg
               else response (POST_download exec tempDir now rl files clientIP body)
                      = Json 429 ''Download rate limit exceeded. Please try again later.''" by blast
qed


theorem format_id_gate_witness:
  "commands (POST_download (\<lambda>cmd fs. (ExecOk [] [], fs)) ''/tmp'' 0 Map.empty [] ''203.0.113.7''
       (Body (Str ''https://youtu.be/abc123'') (Str ''18; ls'') Undefined Undefined)) = []
   \<and> (\<exists>msg. response (POST_download (\<lambda>cmd fs. (ExecOk [] [], fs)) ''/tmp'' 0 Map.empty []
          ''203.0.113.7''
          (Body (Str ''https://youtu.be/abc123'') (Str ''18; ls'') Undefined Undefined))
        = Json 400 msg)"
proof -
  let ?body = "Body (Str ''https://youtu.be/abc123'') (Str ''18; ls'') Undefined Undefined"
  let ?A = "''abcdefghijklmnopqrstuvwxyzABCDEFGHIJKLMNOPQRSTUVWXYZ0123456789_-''"
  have bad: "\<not> (\<exists>f. Str ''18; ls'' = Str f \<and> f \<noteq> [] \<and> length f \<le> 20 \<and> set f \<subseteq> set ?A)"
    by simp
  have adm: "fst (checkDownloadRateLimit 0 Map.empty ''203.0.113.7'')"
    by (simp add: checkDownloadRateLimit_def sweep_def)
  note T = format_id_gate[of "\<lambda>cmd fs. (ExecOk [] [], fs)" "''/tmp''" 0 Map.empty "[]"
      "''203.0.113.7''" ?body, THEN conjunct2, rule_format,
      of "Str ''https://youtu.be/abc123''" "Str ''18; ls''" Undefined Undefined]
  have "?body = ?body \<and> \<not> (\<exists>f. Str ''18; ls'' = Str f \<and> f \<noteq> [] \<and> length f \<le> 20 \<and> set f \<subseteq> set ?A)"
    using bad by blast
  from T[OF this] adm show ?thesis by (simp only: if_True)
qed

text \<open>
  Claim C6 as stated fails: the eleventh request of a client within one window is
  answered with HTTP 429 before the format identifier is looked at, so a request with
  the identifier \<open>18; ls\<close> is then not answered with HTTP 400.
\<close>

theorem format_id_throttled:
  "response (POST_download (\<lambda>cmd fs. (ExecOk [] [], fs)) ''/tmp'' 1000
       [''203.0.113.7'' \<mapsto> \<lparr>count = 10, resetTime = 60000\<rparr>] [] ''203.0.113.7''
       (Body (Str ''https://youtu.be/abc123'') (Str ''18; ls'') Undefined Undefined))
     = Json 429 ''Download rate limit exceeded. Please try again later.''
   \<and> \<not> (\<exists>msg. response (POST_download (\<lambda>cmd fs. (ExecOk [] [], fs)) ''/tmp'' 1000
       [''203.0.113.7'' \<mapsto> \<lparr>count = 10, resetTime = 60000\<rparr>] [] ''203.0.113.7''
       (Body (Str ''https://youtu.be/abc123'') (Str ''18; ls'') Undefined Undefined))
     = Json 400 msg)"
  by (simp add: POST_download_def checkDownloadRateLimit_def sweep_def
      DOWNLOAD_RATE_LIMIT_MAX_REQUESTS_def)

lemma unlinkSync_names: "name \<notin> fst ` set (unlinkSync name files)"
  by (auto simp: unlinkSync_def)

lemma unlinkSync_keeps: "e \<in> set files \<Longrightarrow> fst e \<noteq> name \<Longrightarrow> e \<in> set (unlinkSync name files)"
  by (auto simp: unlinkSync_def)

text \<open>
  Claim C4. Suppose the handler has invoked the external tool (with command line
  \<open>cmd\<close>), the invocation returns without an error marker on its diagnostic stream, and
  the first directory entry whose name contains the request's file name has a size above
  the cap of \<open>2000 * 1024 * 1024\<close> bytes (the value the code calls 2GB). Then the response
  is HTTP 413, the directory the handler leaves behind is the tool's directory without
  that entry (every other entry is kept), and the response is not a file stream.
\<close>

theorem oversize_file_rejected:
  assumes invoked: "commands (POST_download exec tempDir now rl files clientIP body) = [cmd]"
      and completes: "exec cmd files = (ExecOk out err, files1)"
      and no_marker: "\<not> js_includes err ''ERROR''"
      and body: "body = Body url formatId title channel"
      and fn: "filename_of title channel = Some filename"
      and located: "filter (\<lambda>f. js_includes f filename) (map fst files1) = name # others"
      and size: "map_of files1 name = Some sz"
      and over: "sz > 2000 * 1024 * 1024"
  shows "response (POST_download exec tempDir now rl files clientIP body)
           = Json 413 ''File too large. Maximum size is 2GB.''
       \<and> files' (POST_download exec tempDir now rl files clientIP body) = unlinkSync name files1
       \<and> name \<notin> fst ` set (files' (POST_download exec tempDir now rl files clientIP body))
       \<and> (\<forall>e \<in> set files1. fst e \<noteq> name \<longrightarrow>
             e \<in> set (files' (POST_download exec tempDir now rl files clientIP body)))
       \<and> (\<forall>p ct cd n. response (POST_download exec tempDir now rl files clientIP body)
             \<noteq> FileStream p ct cd n)"
proof -
  have ne: "commands (POST_download exec tempDir now rl files clientIP body) \<noteq> []"
    using invoked by simp
  from POST_download_invoked[OF ne] body fn obtain u f where
    r: "POST_download exec tempDir now rl files clientIP body
          = run_download exec tempDir (snd (checkDownloadRateLimit now rl clientIP)) files u f filename"
    by auto
  have cmd: "cmd = download_command tempDir u f filename"
    using invoked unfolding r run_download_commands by simp
  have resp: "response (POST_download exec tempDir now rl files clientIP body)
           = Json 413 ''File too large. Maximum size is 2GB.''"
    and fs: "files' (POST_download exec tempDir now rl files clientIP body) = unlinkSync name files1"
    unfolding r run_download_def Let_def
    using completes[unfolded cmd] no_marker located size over
    by (simp_all add: maxFileSize_def)
  show ?thesis
    unfolding fs using resp fs unlinkSync_names[of name files1] unlinkSync_keeps[of _ files1 name]
    by auto
qed

theorem oversize_file_rejected_witness:
  "response (POST_download
       (\<lambda>cmd fs. (ExecOk ''done'' [], (''My Video - Chan.mp4'', 3000000000) # fs))
       ''/tmp'' 0 Map.empty [(''notes.txt'', 5)] ''203.0.113.7''
       (Body (Str ''https://youtu.be/abc123'') (Str ''18'') (Str ''My Video'') (Str ''Chan'')))
     = Json 413 ''File too large. Maximum size is 2GB.''
   \<and> files' (POST_download
       (\<lambda>cmd fs. (ExecOk ''done'' [], (''My Video - Chan.mp4'', 3000000000) # fs))
       ''/tmp'' 0 Map.empty [(''notes.txt'', 5)] ''203.0.113.7''
       (Body (Str ''https://youtu.be/abc123'') (Str ''18'') (Str ''My Video'') (Str ''Chan'')))
     = [(''notes.txt'', 5)]"
proof -
  let ?exec = "\<lambda>cmd fs. (ExecOk ''done'' [], (''My Video - Chan.mp4'', 3000000000::nat) # fs)"
  let ?body = "Body (Str ''https://youtu.be/abc123'') (Str ''18'') (Str ''My Video'') (Str ''Chan'')"
  let ?files = "[(''notes.txt'', 5::nat)]"
  let ?files1 = "(''My Video - Chan.mp4'', 3000000000::nat) # ?files"
  let ?r = "POST_download ?exec ''/tmp'' 0 Map.empty ?files ''203.0.113.7'' ?body"
  have s1: "sanitizeFilename_server ''My Video'' = ''My Video''"
    and s2: "sanitizeFilename_server ''Chan'' = ''Chan''"
    by (simp_all add: sanitizeFilename_server_def substring0_def trim_def
      is_js_space_def printable_ascii_def invalid_filename_char_def)
  have fn: "filename_of (Str ''My Video'') (Str ''Chan'') = Some ''My Video - Chan''"
    by (simp add: filename_of_def js_or_def s1 s2)
  have v: "validateFormatId ''18''"
    by (simp add: validateFormatId_def format_id_char_def)
  have adm: "checkDownloadRateLimit 0 Map.empty ''203.0.113.7''
      = (True, [''203.0.113.7'' \<mapsto> \<lparr>count = 1, resetTime = 0 + DOWNLOAD_RATE_LIMIT_WINDOW\<rparr>])"
    by (auto simp add: checkDownloadRateLimit_def sweep_def fun_eq_iff)
  have r: "?r = run_download ?exec ''/tmp''
      [''203.0.113.7'' \<mapsto> \<lparr>count = 1, resetTime = 0 + DOWNLOAD_RATE_LIMIT_WINDOW\<rparr>]
      ?files ''https://youtu.be/abc123'' ''18'' ''My Video - Chan''"
    by (simp add: POST_download_def adm v fn)
  have invoked: "commands ?r
      = [download_command ''/tmp'' ''https://youtu.be/abc123'' ''18'' ''My Video - Chan'']"
    unfolding r by (rule run_download_commands)
  have completes: "?exec (download_command ''/tmp'' ''https://youtu.be/abc123'' ''18'' ''My Video - Chan'')
      ?files = (ExecOk ''done'' [], ?files1)" by simp
  have no_marker: "\<not> js_includes [] ''ERROR''" by simp
  have located: "filter (\<lambda>f. js_includes f ''My Video - Chan'') (map fst ?files1)
      = ''My Video - Chan.mp4'' # []" by simp
  have size: "map_of ?files1 ''My Video - Chan.mp4'' = Some 3000000000" by simp
  have over: "(3000000000::nat) > 2000 * 1024 * 1024" by simp
  note T = oversize_file_rejected[OF invoked completes no_marker refl fn located size over]
  have u: "unlinkSync ''My Video - Chan.mp4'' ?files1 = ?files"
    by (simp add: unlinkSync_def)
  from T u show ?thesis by simp
qed


lemma getContentType_unmapped:
  assumes "toLowerCase ext \<notin> fst ` set contentTypes"
  shows "getContentType ext \<in> {''application/octet-stream'', ''function Object() { [native code] }'',
                               ''[object Object]''}"
    and "toLowerCase ext \<notin> {''constructor'', ''__proto__''}
           \<Longrightarrow> getContentType ext = ''application/octet-stream''"
proof -
  have none: "map_of contentTypes (toLowerCase ext) = None"
    using assms by (simp add: map_of_eq_None_iff)
  show "getContentType ext \<in> {''application/octet-stream'', ''function Object() { [native code] }'',
                               ''[object Object]''}"
    unfolding getContentType_def map_of_append
    using none by (simp add: map_add_def inherited_properties_def)
  show "getContentType ext = ''application/octet-stream''"
    if "toLowerCase ext \<notin> {''constructor'', ''__proto__''}"
    unfolding getContentType_def map_of_append
    using none that by (simp add: map_add_def inherited_properties_def)
qed

lemma default_types_not_media:
  "ct \<in> {''application/octet-stream'', ''function Object() { [native code] }'', ''[object Object]''}
   \<Longrightarrow> \<not> sublist ''video'' ct \<and> \<not> sublist ''audio'' ct"
  unfolding js_includes_iff_sublist[symmetric] by auto

lemma load_listener_rejects:
  assumes "200 \<le> xhr_status xhr" "xhr_status xhr < 300"
      and "\<forall>ct. content_type xhr = Some ct \<longrightarrow> \<not> sublist ''video'' ct \<and> \<not> sublist ''audio'' ct"
  shows "load_listener title channel xhr = Rejected ''Invalid file type received'' 500"
  using assms unfolding load_listener_def js_includes_iff_sublist
  by (auto split: option.splits)

text \<open>
  Claim C9. For every response with a status from 200 to 299 whose \<open>content-type\<close>
  header is absent or contains neither \<open>video\<close> nor \<open>audio\<close>, the \<open>load\<close> listener rejects
  with \<open>APIError("Invalid file type received", 500)\<close> and does not trigger a save. For
  every file extension outside the server's table, the server's content type contains
  neither word (it is \<open>application/octet-stream\<close>, except for the two inherited property
  names), so a success response carrying it is rejected in this way, whatever its other
  headers and its body.
\<close>

theorem non_media_content_type_rejected:
  "(200 \<le> xhr_status xhr \<and> xhr_status xhr < 300
      \<and> (\<forall>ct. content_type xhr = Some ct \<longrightarrow> \<not> sublist ''video'' ct \<and> \<not> sublist ''audio'' ct)
    \<longrightarrow> load_listener title channel xhr = Rejected ''Invalid file type received'' 500
        \<and> (\<forall>name. load_listener title channel xhr \<noteq> Saved name))
   \<and> (toLowerCase ext \<notin> fst ` set contentTypes \<longrightarrow>
        \<not> sublist ''video'' (getContentType ext) \<and> \<not> sublist ''audio'' (getContentType ext)
        \<and> (toLowerCase ext \<notin> {''constructor'', ''__proto__''}
             \<longrightarrow> getContentType ext = ''application/octet-stream'')
        \<and> (200 \<le> st \<and> st < 300 \<longrightarrow>
             load_listener title channel
               \<lparr>xhr_status = st, content_type = Some (getContentType ext),
                content_disposition = cd, blob_size = b\<rparr>
             = Rejected ''Invalid file type received'' 500))"
proof (intro conjI impI)
  assume a: "200 \<le> xhr_status xhr \<and> xhr_status xhr < 300
      \<and> (\<forall>ct. content_type xhr = Some ct \<longrightarrow> \<not> sublist ''video'' ct \<and> \<not> sublist ''audio'' ct)"
  then show r: "load_listener title channel xhr = Rejected ''Invalid file type received'' 500"
    using load_listener_rejects[of xhr title channel] by blast
  then show "\<forall>name. load_listener title channel xhr \<noteq> Saved name" by simp
next
  assume u: "toLowerCase ext \<notin> fst ` set contentTypes"
  note d = default_types_not_media[OF getContentType_unmapped(1)[OF u]]
  from d show "\<not> sublist ''video'' (getContentType ext)" by blast
  from d show "\<not> sublist ''audio'' (getContentType ext)" by blast
  show "getContentType ext = ''application/octet-stream''"
    if "toLowerCase ext \<notin> {''constructor'', ''__proto__''}"
    using getContentType_unmapped(2)[OF u that] .
  show "load_listener title channel
               \<lparr>xhr_status = st, content_type = Some (getContentType ext),
                content_disposition = cd, blob_size = b\<rparr>
             = Rejected ''Invalid file type received'' 500"
    if "200 \<le> st \<and> st < 300"
    using that d by (intro load_listener_rejects) auto
qed

theorem non_media_content_type_rejected_witness:
  "toLowerCase ''3GP'' = ''3gp''
   \<and> getContentType ''3GP'' = ''application/octet-stream''
   \<and> load_listener ''My Video'' ''Chan''
        \<lparr>xhr_status = 200, content_type = Some (getContentType ''3GP''),
         content_disposition = Some ''attachment; filename=x.3GP'', blob_size = Some 1024\<rparr>
      = Rejected ''Invalid file type received'' 500"
proof -
  have l: "toLowerCase ''3GP'' = ''3gp''"
    by code_simp
  have u: "toLowerCase ''3GP'' \<notin> fst ` set contentTypes"
    unfolding l by (simp add: contentTypes_def)
  have n: "toLowerCase ''3GP'' \<notin> {''constructor'', ''__proto__''}"
    unfolding l by simp
  have st: "(200::int) \<le> 200 \<and> (200::int) < 300" by simp
  note T = non_media_content_type_rejected[where ext="''3GP''" and st=200
      and title="''My Video''" and channel="''Chan''"
      and cd="Some ''attachment; filename=x.3GP''" and b="Some 1024",
      THEN conjunct2, rule_format, OF u]
  from T n st l show ?thesis by blast
qed





section \<open>URL validation: proofs\<close>

text \<open>
  Claim C2. Whatever the platform's URL parser is, \<open>validateYouTubeUrl\<close> accepts an input
  exactly when the parser accepts it as a URL, its host is one of \<open>www.youtube.com\<close>,
  \<open>youtube.com\<close>, \<open>youtu.be\<close>, \<open>m.youtube.com\<close>, and its path has an accepted shape: for
  \<open>youtu.be\<close> a path with something after the leading slash (length above 1); for the
  other hosts a path that contains \<open>/watch\<close> or contains \<open>/shorts/\<close>. With the components
  the parser yields for them, \<open>https://youtu.be/abc123\<close> and
  \<open>https://www.youtube.com/watch?v=abc123\<close> are accepted, \<open>https://example.com/watch?v=abc123\<close>
  and \<open>https://www.youtube.com/\<close> are rejected. The statement is about the function; the
  handler calls it on the request's \<open>url\<close> after \<open>sanitizeInput\<close> (trimmed and cut to 2000
  characters).
\<close>

theorem validateYouTubeUrl_accepts_exactly:
  "(validateYouTubeUrl new_URL url \<longleftrightarrow>
      (\<exists>u. new_URL url = Some u
         \<and> hostname u \<in> {''www.youtube.com'', ''youtube.com'', ''youtu.be'', ''m.youtube.com''}
         \<and> (if hostname u = ''youtu.be'' then length (pathname u) > 1
             else sublist ''/watch'' (pathname u) \<or> sublist ''/shorts/'' (pathname u))))
   \<and> (new_URL ''https://youtu.be/abc123''
         = Some \<lparr>hostname = ''youtu.be'', pathname = ''/abc123''\<rparr>
        \<longrightarrow> validateYouTubeUrl new_URL ''https://youtu.be/abc123'')
   \<and> (new_URL ''https://www.youtube.com/watch?v=abc123''
         = Some \<lparr>hostname = ''www.youtube.com'', pathname = ''/watch''\<rparr>
        \<longrightarrow> validateYouTubeUrl new_URL ''https://www.youtube.com/watch?v=abc123'')
   \<and> (new_URL ''https://example.com/watch?v=abc123''
         = Some \<lparr>hostname = ''example.com'', pathname = ''/watch''\<rparr>
        \<longrightarrow> \<not> validateYouTubeUrl new_URL ''https://example.com/watch?v=abc123'')
   \<and> (new_URL ''https://www.youtube.com/''
         = Some \<lparr>hostname = ''www.youtube.com'', pathname = ''/''\<rparr>
        \<longrightarrow> \<not> validateYouTubeUrl new_URL ''https://www.youtube.com/'')"
proof (intro conjI impI)
  show "validateYouTubeUrl new_URL url \<longleftrightarrow>
      (\<exists>u. new_URL url = Some u
         \<and> hostname u \<in> {''www.youtube.com'', ''youtube.com'', ''youtu.be'', ''m.youtube.com''}
         \<and> (if hostname u = ''youtu.be'' then length (pathname u) > 1
             else sublist ''/watch'' (pathname u) \<or> sublist ''/shorts/'' (pathname u)))"
    unfolding validateYouTubeUrl_def js_includes_iff_sublist
    by (cases "new_URL url") (auto simp: validHosts_def)
qed (simp_all add: validateYouTubeUrl_def validHosts_def)

lemma parse_examples:
  "parse_plain_url ''https://youtu.be/abc123''
     = Some \<lparr>hostname = ''youtu.be'', pathname = ''/abc123''\<rparr>"
  "parse_plain_url ''https://www.youtube.com/watch?v=abc123''
     = Some \<lparr>hostname = ''www.youtube.com'', pathname = ''/watch''\<rparr>"
  "parse_plain_url ''https://example.com/watch?v=abc123''
     = Some \<lparr>hostname = ''example.com'', pathname = ''/watch''\<rparr>"
  "parse_plain_url ''https://www.youtube.com/''
     = Some \<lparr>hostname = ''www.youtube.com'', pathname = ''/''\<rparr>"
  "parse_plain_url ''not a url'' = None"
  by code_simp+

theorem validateYouTubeUrl_accepts_exactly_witness:
  "validateYouTubeUrl parse_plain_url ''https://youtu.be/abc123''
   \<and> validateYouTubeUrl parse_plain_url ''https://www.youtube.com/watch?v=abc123''
   \<and> \<not> validateYouTubeUrl parse_plain_url ''https://example.com/watch?v=abc123''
   \<and> \<not> validateYouTubeUrl parse_plain_url ''https://www.youtube.com/''
   \<and> \<not> validateYouTubeUrl parse_plain_url ''not a url''"
proof -
  note T = validateYouTubeUrl_accepts_exactly[where new_URL = parse_plain_url]
  have a: "validateYouTubeUrl parse_plain_url ''https://youtu.be/abc123''"
    using T[THEN conjunct2, THEN conjunct1] parse_examples(1) by blast
  have b: "validateYouTubeUrl parse_plain_url ''https://www.youtube.com/watch?v=abc123''"
    using T[THEN conjunct2, THEN conjunct2, THEN conjunct1] parse_examples(2) by blast
  have c: "\<not> validateYouTubeUrl parse_plain_url ''https://example.com/watch?v=abc123''"
    using T[THEN conjunct2, THEN conjunct2, THEN conjunct2, THEN conjunct1] parse_examples(3)
    by blast
  have d: "\<not> validateYouTubeUrl parse_plain_url ''https://www.youtube.com/''"
    using T[THEN conjunct2, THEN conjunct2, THEN conjunct2, THEN conjunct2] parse_examples(4)
    by blast
  have e: "\<not> validateYouTubeUrl parse_plain_url ''not a url''"
    using T[where url="''not a url''", THEN conjunct1] parse_examples(5) by simp
  from a b c d e show ?thesis by blast
qed

section \<open>Format list: proofs\<close>

lemma is_digit_digit_char: "d < 10 \<Longrightarrow> is_digit (digit_char d)"
  by (simp add: is_digit_def digit_char_def)

lemma digit_value: "d < 10 \<Longrightarrow> (of_char (digit_char d) :: nat) - 48 = d"
  by (simp add: digit_char_def)

lemma digits_of_nonempty: "digits_of n \<noteq> []"
  by (subst digits_of.simps) simp

lemma digits_of_digits: "list_all is_digit (digits_of n)"
proof (induction n rule: digits_of.induct)
  case (1 n)
  show ?case
  proof (cases "n < 10")
    case True
    then show ?thesis by (subst digits_of.simps) (simp add: is_digit_digit_char)
  next
    case False
    then show ?thesis using 1 by (subst digits_of.simps) (simp add: is_digit_digit_char)
  qed
qed

text \<open>
  \<open>Number.parseInt\<close> gives back a whole number below \<open>2^53\<close> from its decimal digits.
\<close>

lemma parseInt_digits_of:
  assumes "n < 2 ^ 53"
  shows "parseInt (digits_of n) = Finite (of_nat n)"
proof -
  have "foldl (\<lambda>acc c. 10 * acc + ((of_char c :: nat) - 48)) 0 (digits_of n) = n"
  proof (induction n rule: digits_of.induct)
    case (1 n)
    show ?case
    proof (cases "n < 10")
      case True
      then show ?thesis by (subst digits_of.simps) (simp add: digit_value)
    next
      case False
      then show ?thesis using 1 by (subst digits_of.simps) (simp add: digit_value)
    qed
  qed
  then show ?thesis using to_double_nat_exact[OF assms] by (simp add: parseInt_def)
qed

lemma match_digits_then_exact:
  assumes "ds \<noteq> []" "list_all is_digit ds" "suf \<noteq> []" "\<not> is_digit (hd suf)"
  shows "match_digits_then suf (ds @ suf) = Some ds"
proof -
  obtain c cs where ds: "ds = c # cs" using assms(1) by (cases ds) auto
  have c: "is_digit c" and cs: "\<forall>x \<in> set cs. is_digit x"
    using assms(2) ds by (auto simp: list_all_iff)
  obtain s ss where suf: "suf = s # ss" using assms(3) by (cases suf) auto
  have s: "\<not> is_digit s" using assms(4) suf by simp
  have d: "dropWhile is_digit (cs @ suf) = suf"
    using cs s suf by (simp add: dropWhile_append)
  have t: "takeWhile is_digit (cs @ suf) = cs"
    using cs s suf by (simp add: takeWhile_append)
  show ?thesis unfolding ds using c d t by simp
qed

text \<open>
  On the labels the claim has in mind the score is the one it expects: a video-capable
  descriptor labelled \<open>hp\<close> scores \<open>h + 10000\<close> and any descriptor labelled \<open>bkbps\<close> that is
  not scored as video scores \<open>b\<close>, for whole numbers \<open>h\<close> and \<open>b\<close> in the range of exact
  doubles.
\<close>

lemma score_video:
  assumes "truthy vcodec" "vcodec \<noteq> Str ''none''" "h + 10000 < 2 ^ 53"
  shows "getQualityScore (Str (digits_of h @ ''p'')) vcodec = Inr (Finite (of_nat h + 10000))"
proof -
  have m: "match_digits_then ''p'' (digits_of h @ ''p'') = Some (digits_of h)"
    by (rule match_digits_then_exact)
       (simp_all add: digits_of_nonempty digits_of_digits is_digit_def)
  have "h < 2 ^ 53" using assms(3) by simp
  then have p: "parseInt (digits_of h) = Finite (of_nat h)" by (rule parseInt_digits_of)
  have "to_double (of_nat (h + 10000)) = Finite (of_nat (h + 10000))"
    using assms(3) by (rule to_double_nat_exact)
  then have "to_double (of_nat h + 10000) = Finite (of_nat h + 10000)" by simp
  then show ?thesis using assms(1,2) m p by (simp add: getQualityScore_def)
qed

lemma score_audio:
  assumes "\<not> (truthy vcodec \<and> vcodec \<noteq> Str ''none'')" "b < 2 ^ 53"
  shows "getQualityScore (Str (digits_of b @ ''kbps'')) vcodec = Inr (Finite (of_nat b))"
proof -
  have m: "match_digits_then ''kbps'' (digits_of b @ ''kbps'') = Some (digits_of b)"
    by (rule match_digits_then_exact)
       (simp_all add: digits_of_nonempty digits_of_digits is_digit_def)
  have p: "parseInt (digits_of b) = Finite (of_nat b)" using assms(2) by (rule parseInt_digits_of)
  show ?thesis using assms(1) m p by (auto simp: getQualityScore_def)
qed

lemma digits_of_small: "n < 10 \<Longrightarrow> digits_of n = [digit_char n]"
  by (subst digits_of.simps) simp

lemma digits_of_large: "10 \<le> n \<Longrightarrow> digits_of n = digits_of (n div 10) @ [digit_char (n mod 10)]"
  by (subst digits_of.simps) simp

lemma digit_chars:
  "digit_char 0 = CHR ''0''" "digit_char 1 = CHR ''1''" "digit_char 2 = CHR ''2''"
  "digit_char 3 = CHR ''3''" "digit_char 4 = CHR ''4''" "digit_char 5 = CHR ''5''"
  "digit_char 6 = CHR ''6''" "digit_char 7 = CHR ''7''" "digit_char 8 = CHR ''8''"
  "digit_char 9 = CHR ''9''" "digit_char (Suc 0) = CHR ''1''"
  by code_simp+

lemma digits_examples:
  "digits_of 20000 = ''20000''" "digits_of 360 = ''360''" "digits_of 128 = ''128''"
  "digits_of 1080 = ''1080''"
  by (simp_all add: digits_of_small digits_of_large digit_chars)

lemmas evaluate_formats =
  processFormats_def descriptor_of_def js_get_def js_or_def getQualityString_def
  score_of_def getQualityScore_def video_capable_def sort_by_def digits_examples
  is_digit_def parseInt_def js_sub_def to_double_numeral

text \<open>
  With whole-number heights and bitrates of ordinary size the list comes out as the
  claim says: the videos by descending height, then the audio.
\<close>

lemma format_order_example:
  "processFormats
     [[(''format_id'', Str ''140''), (''ext'', Str ''m4a''), (''abr'', Num 128),
       (''vcodec'', Str ''none'')],
      [(''format_id'', Str ''18''), (''ext'', Str ''mp4''), (''height'', Num 360),
       (''vcodec'', Str ''avc1.42001E'')],
      [(''format_id'', Str ''137''), (''ext'', Str ''mp4''), (''height'', Num 1080),
       (''vcodec'', Str ''avc1.640028'')]]
   = Inr
     [[(''format_id'', Str ''137''), (''ext'', Str ''mp4''), (''quality'', Str ''1080p''),
       (''filesize'', Undefined), (''format_note'', Undefined), (''vcodec'', Str ''avc1.640028''),
       (''acodec'', Undefined), (''fps'', Undefined), (''tbr'', Undefined)],
      [(''format_id'', Str ''18''), (''ext'', Str ''mp4''), (''quality'', Str ''360p''),
       (''filesize'', Undefined), (''format_note'', Undefined), (''vcodec'', Str ''avc1.42001E''),
       (''acodec'', Undefined), (''fps'', Undefined), (''tbr'', Undefined)],
      [(''format_id'', Str ''140''), (''ext'', Str ''m4a''), (''quality'', Str ''128kbps''),
       (''filesize'', Undefined), (''format_note'', Undefined), (''vcodec'', Str ''none''),
       (''acodec'', Undefined), (''fps'', Undefined), (''tbr'', Undefined)]]"
  by (simp add: evaluate_formats)

text \<open>
  Claim C3. The claim says what the comments of the code say (\<open>video first, then audio\<close>,
  \<open>Add 10000 to prioritize video\<close>); the code does not keep to it.
  \<^item> A bitrate that is not a whole number is scored by the digits after its decimal
    point: in \<open>129.478kbps\<close> the leftmost match of \<open>(\d+)kbps\<close> is \<open>478kbps\<close>. So of two
    audio-only records the one with bitrate 48.782 (score 782) is listed before the one
    with bitrate 129.478 (score 478).
  \<^item> The video bonus is the number 10000: an audio-only record with bitrate 20000 scores
    above a video record of height 360 (score 10360) and is listed before it.
\<close>

theorem processFormats_misorders:
  "processFormats
     [[(''format_id'', Str ''140''), (''ext'', Str ''m4a''), (''abr'', Fraction ''129.478''),
       (''vcodec'', Str ''none'')],
      [(''format_id'', Str ''249''), (''ext'', Str ''webm''), (''abr'', Fraction ''48.782''),
       (''vcodec'', Str ''none'')]]
   = Inr
     [[(''format_id'', Str ''249''), (''ext'', Str ''webm''), (''quality'', Str ''48.782kbps''),
       (''filesize'', Undefined), (''format_note'', Undefined), (''vcodec'', Str ''none''),
       (''acodec'', Undefined), (''fps'', Undefined), (''tbr'', Undefined)],
      [(''format_id'', Str ''140''), (''ext'', Str ''m4a''), (''quality'', Str ''129.478kbps''),
       (''filesize'', Undefined), (''format_note'', Undefined), (''vcodec'', Str ''none''),
       (''acodec'', Undefined), (''fps'', Undefined), (''tbr'', Undefined)]]
   \<and> processFormats
     [[(''format_id'', Str ''18''), (''ext'', Str ''mp4''), (''height'', Num 360),
       (''vcodec'', Str ''avc1.42001E'')],
      [(''format_id'', Str ''140''), (''ext'', Str ''m4a''), (''abr'', Num 20000),
       (''vcodec'', Str ''none'')]]
   = Inr
     [[(''format_id'', Str ''140''), (''ext'', Str ''m4a''), (''quality'', Str ''20000kbps''),
       (''filesize'', Undefined), (''format_note'', Undefined), (''vcodec'', Str ''none''),
       (''acodec'', Undefined), (''fps'', Undefined), (''tbr'', Undefined)],
      [(''format_id'', Str ''18''), (''ext'', Str ''mp4''), (''quality'', Str ''360p''),
       (''filesize'', Undefined), (''format_note'', Undefined), (''vcodec'', Str ''avc1.42001E''),
       (''acodec'', Undefined), (''fps'', Undefined), (''tbr'', Undefined)]]
   \<and> \<not> video_capable
        [(''format_id'', Str ''140''), (''ext'', Str ''m4a''), (''quality'', Str ''20000kbps''),
         (''filesize'', Undefined), (''format_note'', Undefined), (''vcodec'', Str ''none''),
         (''acodec'', Undefined), (''fps'', Undefined), (''tbr'', Undefined)]
   \<and> video_capable
        [(''format_id'', Str ''18''), (''ext'', Str ''mp4''), (''quality'', Str ''360p''),
         (''filesize'', Undefined), (''format_note'', Undefined), (''vcodec'', Str ''avc1.42001E''),
         (''acodec'', Undefined), (''fps'', Undefined), (''tbr'', Undefined)]"
  by (simp add: evaluate_formats)


section \<open>Download queue: proofs\<close>

lemma processQueue_busy: "1 \<le> captured \<Longrightarrow> processQueue captured s = s"
  by (simp add: processQueue_def MAX_CONCURRENT_DOWNLOADS_def)

lemma processQueue_Nil: "downloadQueue s = [] \<Longrightarrow> processQueue captured s = s"
  by (simp add: processQueue_def)

lemma processQueue_Cons:
  assumes "captured < 1" "downloadQueue s = x # q"
  shows "processQueue captured s =
           (if x = [] then s\<lparr>downloadQueue := q\<rparr>
            else if admissible (downloads s) x then startDownload x (s\<lparr>downloadQueue := q\<rparr>)
            else s\<lparr>downloadQueue := q, timers := timers s @ [captured]\<rparr>)"
  using assms
  by (auto simp: processQueue_def MAX_CONCURRENT_DOWNLOADS_def admissible_def Let_def
           split: option.splits)

lemma find_item_id: "find (\<lambda>d. item_id d = a) ds = Some d \<Longrightarrow> item_id d = a \<and> d \<in> set ds"
  by (auto simp: find_Some_iff)

lemma run_snoc: "run s (evs @ [e]) = step (run s evs) e"
  by (simp add: run_def)

lemma find_update_item_other:
  assumes "x \<noteq> a" "\<And>d. item_id (f d) = item_id d"
  shows "find (\<lambda>d. item_id d = a) (update_item x f ds) = find (\<lambda>d. item_id d = a) ds"
  using assms by (induction ds) (auto simp: update_item_def)

lemma find_update_item_same:
  assumes "\<And>d. item_id (f d) = item_id d"
  shows "find (\<lambda>d. item_id d = a) (update_item a f ds)
           = map_option f (find (\<lambda>d. item_id d = a) ds)"
  using assms by (induction ds) (auto simp: update_item_def)

lemma out_of_queue_update:
  assumes o: "out_of_queue a s"
      and keep: "\<And>d. item_id (f d) = item_id d"
      and st: "\<And>d. item_id d = a \<Longrightarrow> x = a \<Longrightarrow> status (f d) \<noteq> Queued \<and> status (f d) \<noteq> Preparing"
  shows "out_of_queue a (s\<lparr>downloads := update_item x f (downloads s)\<rparr>)"
proof -
  have old: "\<And>d. d \<in> set (downloads s) \<Longrightarrow> item_id d = a
               \<Longrightarrow> status d \<noteq> Queued \<and> status d \<noteq> Preparing"
    using o by (simp add: out_of_queue_def list_all_iff)
  have "status d' \<noteq> Queued \<and> status d' \<noteq> Preparing"
    if "d' \<in> set (update_item x f (downloads s))" "item_id d' = a" for d'
  proof -
    from that(1) obtain d where d: "d \<in> set (downloads s)"
      and d': "d' = (if item_id d = x then f d else d)"
      by (auto simp: update_item_def)
    show ?thesis
    proof (cases "item_id d = x")
      case True
      then have "item_id d = a" using that(2) d' keep by simp
      then show ?thesis using st[of d] True d' by simp
    next
      case False
      then show ?thesis using old[OF d] that(2) d' by simp
    qed
  qed
  then show ?thesis using o by (simp add: out_of_queue_def list_all_iff)
qed

lemma out_of_queue_processQueue:
  assumes "out_of_queue a s"
  shows "out_of_queue a (processQueue captured s)
       \<and> filter (\<lambda>x. x = a) (requests (processQueue captured s))
           = filter (\<lambda>x. x = a) (requests s)"
proof (cases "1 \<le> captured \<or> downloadQueue s = []")
  case True
  then show ?thesis using assms by (auto simp: processQueue_busy processQueue_Nil)
next
  case False
  then obtain x q where free: "captured < 1" and dq: "downloadQueue s = x # q"
    by (cases "downloadQueue s") auto
  have xa: "x \<noteq> a" and aq: "a \<notin> set q" using assms dq by (auto simp: out_of_queue_def)
  have o1: "out_of_queue a (s\<lparr>downloadQueue := q\<rparr>)"
    using assms aq by (simp add: out_of_queue_def)
  have o2: "out_of_queue a (s\<lparr>downloadQueue := q, timers := timers s @ [captured]\<rparr>)"
    using assms aq by (simp add: out_of_queue_def)
  have o3: "out_of_queue a (startDownload x (s\<lparr>downloadQueue := q\<rparr>))"
    using assms aq xa
    by (auto simp: out_of_queue_def startDownload_def list_all_iff update_item_def)
  have r3: "filter (\<lambda>x. x = a) (requests (startDownload x (s\<lparr>downloadQueue := q\<rparr>)))
              = filter (\<lambda>x. x = a) (requests s)"
    using xa by (simp add: startDownload_def)
  show ?thesis unfolding processQueue_Cons[OF free dq] using o1 o2 o3 r3 by simp
qed

lemma out_of_queue_timers:
  "out_of_queue a (s\<lparr>timers := ts\<rparr>) = out_of_queue a s"
  by (simp add: out_of_queue_def)

lemma out_of_queue_step:
  assumes "out_of_queue a s" "\<not> enqueues a e"
  shows "out_of_queue a (step s e)
       \<and> filter (\<lambda>x. x = a) (requests (step s e)) = filter (\<lambda>x. x = a) (requests s)"
proof (cases e)
  case Effect
  then show ?thesis using out_of_queue_processQueue[OF assms(1)] by simp
next
  case Timeout
  show ?thesis
  proof (cases "timers s")
    case Nil
    then show ?thesis using Timeout assms(1) by simp
  next
    case (Cons c cs)
    have "out_of_queue a (s\<lparr>timers := cs\<rparr>)" using assms(1) by (simp add: out_of_queue_timers)
    from out_of_queue_processQueue[OF this, of c] show ?thesis using Timeout Cons by simp
  qed
next
  case (HandleDownload x t c f u fid)
  then show ?thesis using assms by (auto simp: out_of_queue_def)
next
  case (MarkDownloading x)
  then show ?thesis using assms(1) out_of_queue_update[OF assms(1), of "\<lambda>d. d\<lparr>status := Downloading\<rparr>" x]
    by simp
next
  case (ProgressCallback x p)
  then show ?thesis using assms(1)
    by (auto simp: out_of_queue_def list_all_iff update_item_def)
next
  case (Finish x r)
  then show ?thesis using assms(1)
    by (auto simp: out_of_queue_def list_all_iff update_item_def split: transfer_result.splits)
next
  case (HandleCancelDownload x)
  then show ?thesis using assms(1)
    by (auto simp: out_of_queue_def list_all_iff update_item_def split: option.splits)
next
  case (HandleRetryDownload x)
  then show ?thesis using assms
    by (auto simp: out_of_queue_def list_all_iff update_item_def split: option.splits)
next
  case HandleClearCompleted
  then show ?thesis using assms(1) by (auto simp: out_of_queue_def list_all_iff)
qed

lemma out_of_queue_run:
  assumes "out_of_queue a s" "list_all (\<lambda>e. \<not> enqueues a e) evs"
  shows "out_of_queue a (run s evs)
       \<and> filter (\<lambda>x. x = a) (requests (run s evs)) = filter (\<lambda>x. x = a) (requests s)"
  using assms(2)
proof (induction evs rule: rev_induct)
  case Nil
  then show ?case using assms(1) by (simp add: run_def)
next
  case (snoc e evs)
  then have IH: "out_of_queue a (run s evs)"
      "filter (\<lambda>x. x = a) (requests (run s evs)) = filter (\<lambda>x. x = a) (requests s)"
    and e: "\<not> enqueues a e" by simp_all
  from out_of_queue_step[OF IH(1) e] IH(2) show ?case unfolding run_snoc by simp
qed

lemma out_of_queue_not_preparing:
  assumes "out_of_queue a s"
  shows "status_of a s \<noteq> Some Preparing" "status_of a s \<noteq> Some Queued"
proof -
  have "status d \<noteq> Queued \<and> status d \<noteq> Preparing"
    if "find (\<lambda>d. item_id d = a) (downloads s) = Some d" for d
    using find_item_id[OF that] assms by (simp add: out_of_queue_def list_all_iff)
  then show "status_of a s \<noteq> Some Preparing" "status_of a s \<noteq> Some Queued"
    by (auto simp: status_of_def)
qed

lemma cancelled_all:
  "list_all (\<lambda>d. item_id d = a \<longrightarrow> status d \<noteq> Queued \<and> status d \<noteq> Preparing)
          (update_item a (\<lambda>d. d\<lparr>status := Cancelled\<rparr>) ds)"
  by (induction ds) (simp_all add: update_item_def)

lemma cancel_queued_step:
  assumes "status_of a s = Some Queued"
  shows "step s (HandleCancelDownload a)
           = s\<lparr>downloadQueue := filter (\<lambda>i. i \<noteq> a) (downloadQueue s),
               downloads := update_item a (\<lambda>d. d\<lparr>status := Cancelled\<rparr>) (downloads s)\<rparr>"
    and "out_of_queue a (step s (HandleCancelDownload a))"
    and "status_of a (step s (HandleCancelDownload a)) = Some Cancelled"
proof -
  from assms obtain d where fd: "find (\<lambda>d. item_id d = a) (downloads s) = Some d"
    and q: "status d = Queued" by (auto simp: status_of_def)
  show s': "step s (HandleCancelDownload a)
           = s\<lparr>downloadQueue := filter (\<lambda>i. i \<noteq> a) (downloadQueue s),
               downloads := update_item a (\<lambda>d. d\<lparr>status := Cancelled\<rparr>) (downloads s)\<rparr>"
    using fd q by simp
  have "list_all (\<lambda>d. item_id d = a \<longrightarrow> status d \<noteq> Queued \<and> status d \<noteq> Preparing)
          (update_item a (\<lambda>d. d\<lparr>status := Cancelled\<rparr>) (downloads s))"
    by (rule cancelled_all)
  then show "out_of_queue a (step s (HandleCancelDownload a))"
    unfolding s' by (simp add: out_of_queue_def)
  have "find (\<lambda>d. item_id d = a) (update_item a (\<lambda>d. d\<lparr>status := Cancelled\<rparr>) (downloads s))
          = Some (d\<lparr>status := Cancelled\<rparr>)"
    using find_update_item_same[of "\<lambda>d. d\<lparr>status := Cancelled\<rparr>" a "downloads s"] fd by simp
  then show "status_of a (step s (HandleCancelDownload a)) = Some Cancelled"
    unfolding s' by (simp add: status_of_def)
qed

lemma skip_stale:
  assumes free: "captured < 1" and x: "x \<noteq> []" and stale: "status_of x s \<noteq> Some Queued"
  shows "processQueue captured (s\<lparr>downloadQueue := x # q\<rparr>)
           = s\<lparr>downloadQueue := q, timers := timers s @ [captured]\<rparr>"
proof -
  have "\<not> admissible (downloads s) x"
    using stale by (auto simp: admissible_def status_of_def split: option.splits)
  then show ?thesis
    using processQueue_Cons[OF free, of "s\<lparr>downloadQueue := x # q\<rparr>" x q] x by simp
qed

lemma timer_admits:
  assumes free: "captured < 1" and y: "y \<noteq> []" and adm: "admissible (downloads s) y"
  shows "step (s\<lparr>downloadQueue := y # q, timers := captured # ts\<rparr>) Timeout
           = startDownload y (s\<lparr>downloadQueue := q, timers := ts\<rparr>)"
proof -
  have "s\<lparr>timers := ts, downloadQueue := q\<rparr> = s\<lparr>downloadQueue := q, timers := ts\<rparr>"
    by (cases s) simp
  moreover have "processQueue captured (s\<lparr>downloadQueue := y # q, timers := ts\<rparr>)
                   = startDownload y (s\<lparr>timers := ts, downloadQueue := q\<rparr>)"
    using processQueue_Cons[OF free, of "s\<lparr>downloadQueue := y # q, timers := ts\<rparr>" y q] y adm
    by simp
  moreover have "step (s\<lparr>downloadQueue := y # q, timers := captured # ts\<rparr>) Timeout
                   = processQueue captured (s\<lparr>downloadQueue := y # q, timers := ts\<rparr>)"
    by simp
  ultimately show ?thesis by (simp only:)
qed

lemmas evaluate_queue =
  run_def initial_state_def processQueue_def MAX_CONCURRENT_DOWNLOADS_def present_def
  startDownload_def update_item_def status_of_def admissible_def Let_def

text \<open>
  Claim C7. In every state, cancelling an item whose status is \<open>queued\<close> removes its
  identifier from the pending queue and sets its status to \<open>cancelled\<close>; no request is
  issued, no timer is set, and the counter and the transfers in flight are unchanged.
  After any further events, effects and timers among them, none of which creates or
  retries that identifier, the item is not preparing, its identifier is not in the
  queue, and no further request has been issued for it.
  A call of \<open>processQueue\<close> that passes its test of the counter and takes from the queue
  a non-empty identifier whose item is not queued drops this identifier and sets a
  timer; it leaves the counter, the transfers in flight, the requests and the list of
  downloads as they were. When this timer fires and the next identifier in the queue is
  admissible, that download is started.
\<close>

theorem cancel_queued:
  "(status_of a s = Some Queued \<longrightarrow>
      a \<notin> set (downloadQueue (step s (HandleCancelDownload a)))
      \<and> status_of a (step s (HandleCancelDownload a)) = Some Cancelled
      \<and> requests (step s (HandleCancelDownload a)) = requests s
      \<and> in_flight (step s (HandleCancelDownload a)) = in_flight s
      \<and> activeDownloads (step s (HandleCancelDownload a)) = activeDownloads s
      \<and> timers (step s (HandleCancelDownload a)) = timers s
      \<and> (\<forall>evs. list_all (\<lambda>e. \<not> enqueues a e) evs \<longrightarrow>
            status_of a (run (step s (HandleCancelDownload a)) evs) \<noteq> Some Preparing
            \<and> a \<notin> set (downloadQueue (run (step s (HandleCancelDownload a)) evs))
            \<and> filter (\<lambda>x. x = a) (requests (run (step s (HandleCancelDownload a)) evs))
                = filter (\<lambda>x. x = a) (requests s)))
   \<and> (captured < 1 \<and> x \<noteq> [] \<and> status_of x s \<noteq> Some Queued \<longrightarrow>
        processQueue captured (s\<lparr>downloadQueue := x # q\<rparr>)
          = s\<lparr>downloadQueue := q, timers := timers s @ [captured]\<rparr>)
   \<and> (captured < 1 \<and> y \<noteq> [] \<and> admissible (downloads s) y \<longrightarrow>
        step (s\<lparr>downloadQueue := y # q, timers := captured # ts\<rparr>) Timeout
          = startDownload y (s\<lparr>downloadQueue := q, timers := ts\<rparr>))"
proof (intro conjI impI)
  assume q: "status_of a s = Some Queued"
  note c = cancel_queued_step[OF q]
  show "a \<notin> set (downloadQueue (step s (HandleCancelDownload a)))"
    using c(2) by (simp add: out_of_queue_def)
  show "status_of a (step s (HandleCancelDownload a)) = Some Cancelled" by (rule c(3))
  show "requests (step s (HandleCancelDownload a)) = requests s" unfolding c(1) by simp
  show "in_flight (step s (HandleCancelDownload a)) = in_flight s" unfolding c(1) by simp
  show "activeDownloads (step s (HandleCancelDownload a)) = activeDownloads s"
    unfolding c(1) by simp
  show "timers (step s (HandleCancelDownload a)) = timers s" unfolding c(1) by simp
  have r: "requests (step s (HandleCancelDownload a)) = requests s" unfolding c(1) by simp
  show "\<forall>evs. list_all (\<lambda>e. \<not> enqueues a e) evs \<longrightarrow>
            status_of a (run (step s (HandleCancelDownload a)) evs) \<noteq> Some Preparing
            \<and> a \<notin> set (downloadQueue (run (step s (HandleCancelDownload a)) evs))
            \<and> filter (\<lambda>x. x = a) (requests (run (step s (HandleCancelDownload a)) evs))
                = filter (\<lambda>x. x = a) (requests s)"
  proof (intro allI impI)
    fix evs assume "list_all (\<lambda>e. \<not> enqueues a e) evs"
    from out_of_queue_run[OF c(2) this]
    have o: "out_of_queue a (run (step s (HandleCancelDownload a)) evs)"
      and f: "filter (\<lambda>x. x = a) (requests (run (step s (HandleCancelDownload a)) evs))
                = filter (\<lambda>x. x = a) (requests s)"
      unfolding r by blast+
    show "status_of a (run (step s (HandleCancelDownload a)) evs) \<noteq> Some Preparing
            \<and> a \<notin> set (downloadQueue (run (step s (HandleCancelDownload a)) evs))
            \<and> filter (\<lambda>x. x = a) (requests (run (step s (HandleCancelDownload a)) evs))
                = filter (\<lambda>x. x = a) (requests s)"
      using out_of_queue_not_preparing(1)[OF o] o f by (simp add: out_of_queue_def)
  qed
next
  assume "captured < 1 \<and> x \<noteq> [] \<and> status_of x s \<noteq> Some Queued"
  then show "processQueue captured (s\<lparr>downloadQueue := x # q\<rparr>)
          = s\<lparr>downloadQueue := q, timers := timers s @ [captured]\<rparr>"
    by (intro skip_stale) simp_all
next
  assume "captured < 1 \<and> y \<noteq> [] \<and> admissible (downloads s) y"
  then show "step (s\<lparr>downloadQueue := y # q, timers := captured # ts\<rparr>) Timeout
          = startDownload y (s\<lparr>downloadQueue := q, timers := ts\<rparr>)"
    by (intro timer_admits) simp_all
qed

theorem cancel_queued_witness:
  "status_of ''B'' (run initial_state
      [HandleDownload ''A'' ''T'' ''Ch'' ''720p (MP4)'' ''https://youtu.be/abc123'' ''22'',
       HandleDownload ''B'' ''T'' ''Ch'' ''360p (MP4)'' ''https://youtu.be/abc123'' ''18'',
       Effect]) = Some Queued
   \<and> status_of ''B'' (step (run initial_state
      [HandleDownload ''A'' ''T'' ''Ch'' ''720p (MP4)'' ''https://youtu.be/abc123'' ''22'',
       HandleDownload ''B'' ''T'' ''Ch'' ''360p (MP4)'' ''https://youtu.be/abc123'' ''18'',
       Effect]) (HandleCancelDownload ''B'')) = Some Cancelled
   \<and> status_of ''B'' (run (step (run initial_state
      [HandleDownload ''A'' ''T'' ''Ch'' ''720p (MP4)'' ''https://youtu.be/abc123'' ''22'',
       HandleDownload ''B'' ''T'' ''Ch'' ''360p (MP4)'' ''https://youtu.be/abc123'' ''18'',
       Effect]) (HandleCancelDownload ''B''))
        [Finish ''A'' Resolved, Effect, Timeout]) \<noteq> Some Preparing
   \<and> timers (processQueue 0 ((run initial_state
      [HandleDownload ''A'' ''T'' ''Ch'' ''720p (MP4)'' ''https://youtu.be/abc123'' ''22'',
       Effect, Finish ''A'' Resolved])\<lparr>downloadQueue := [''A'', ''B'']\<rparr>)) = [0]
   \<and> status_of ''B'' (step ((run initial_state
      [HandleDownload ''B'' ''T'' ''Ch'' ''360p (MP4)'' ''https://youtu.be/abc123'' ''18''])
        \<lparr>downloadQueue := [''B''], timers := [0]\<rparr>) Timeout) = Some Preparing"
proof -
  let ?s0 = "(run initial_state
      [HandleDownload ''A'' ''T'' ''Ch'' ''720p (MP4)'' ''https://youtu.be/abc123'' ''22'',
       HandleDownload ''B'' ''T'' ''Ch'' ''360p (MP4)'' ''https://youtu.be/abc123'' ''18'',
       Effect])"
  let ?s1 = "run initial_state
     [HandleDownload ''A'' ''T'' ''Ch'' ''720p (MP4)'' ''https://youtu.be/abc123'' ''22'',
      Effect, Finish ''A'' Resolved]"
  let ?s2 = "run initial_state
      [HandleDownload ''B'' ''T'' ''Ch'' ''360p (MP4)'' ''https://youtu.be/abc123'' ''18'']"
  have q: "status_of ''B'' ?s0 = Some Queued" by (simp add: evaluate_queue)
  have ne: "list_all (\<lambda>e. \<not> enqueues ''B'' e) [Finish ''A'' Resolved, Effect, Timeout]" by simp
  note T = cancel_queued[where s="?s0" and a="''B''", THEN conjunct1, rule_format, OF q]
  have c: "status_of ''B'' (step ?s0 (HandleCancelDownload ''B'')) = Some Cancelled"
    using T by blast
  have n: "status_of ''B'' (run (step ?s0 (HandleCancelDownload ''B''))
        [Finish ''A'' Resolved, Effect, Timeout]) \<noteq> Some Preparing"
    using T ne by blast
  have stale: "(0::int) < 1 \<and> ''A'' \<noteq> [] \<and> status_of ''A'' ?s1 \<noteq> Some Queued"
    by (simp add: evaluate_queue)
  have "processQueue 0 (?s1\<lparr>downloadQueue := ''A'' # [''B'']\<rparr>)
          = ?s1\<lparr>downloadQueue := [''B''], timers := timers ?s1 @ [0]\<rparr>"
    using cancel_queued[where s="?s1" and captured=0 and x="''A''" and q="[''B'']",
        THEN conjunct2, THEN conjunct1, rule_format, OF stale] .
  moreover have "timers ?s1 = []" by (simp add: evaluate_queue)
  ultimately have t: "timers (processQueue 0 (?s1\<lparr>downloadQueue := [''A'', ''B'']\<rparr>)) = [0]"
    by simp
  have adm: "(0::int) < 1 \<and> ''B'' \<noteq> [] \<and> admissible (downloads ?s2) ''B''"
    by (simp add: evaluate_queue)
  have "step (?s2\<lparr>downloadQueue := ''B'' # [], timers := 0 # []\<rparr>) Timeout
          = startDownload ''B'' (?s2\<lparr>downloadQueue := [], timers := []\<rparr>)"
    using cancel_queued[where s="?s2" and captured=0 and y="''B''" and q="[]" and ts="[]",
        THEN conjunct2, THEN conjunct2, rule_format, OF adm] .
  moreover have "status_of ''B'' (startDownload ''B'' (?s2\<lparr>downloadQueue := [], timers := []\<rparr>))
                   = Some Preparing"
    by (simp add: evaluate_queue)
  ultimately have b: "status_of ''B'' (step (?s2\<lparr>downloadQueue := [''B''], timers := [0]\<rparr>) Timeout)
                        = Some Preparing"
    by simp
  from q c n t b show ?thesis by blast
qed


end
